theory Spec2Isabelle
  imports Main "HOL-Library.Sublist"
begin

section \<open>Python values, strings and run-time errors\<close>

text \<open>
  The application is one Streamlit script, \<^verbatim>\<open>app.py\<close>. Streamlit executes the whole
  script once per user interaction (and once more after every \<^verbatim>\<open>st.rerun()\<close>); the only
  memory between two executions is \<^verbatim>\<open>st.session_state\<close>. The embedding below models one
  execution of the script as a function from the session state before the pass to an
  outcome, the session state after the pass and the list of visible effects.

  Python strings are modelled as \<^typ>\<open>string\<close>, one \<^typ>\<open>char\<close> per code point, which covers
  the code points below 256; all literals of the script that take part in the model are
  ASCII. Exceptions are values of \<open>py_error\<close>.
\<close>

datatype py_error =
    JSONDecodeError
  | KeyError
  | AttributeError
  | TypeError
  | IndexError
  | RecursionError
  | ValueError
  | UnidentifiedImageError

text \<open>
  What \<^verbatim>\<open>json.loads\<close> can return: \<^verbatim>\<open>None\<close>, \<^verbatim>\<open>bool\<close>, \<^verbatim>\<open>int\<close>, \<^verbatim>\<open>float\<close>, \<^verbatim>\<open>str\<close>,
  \<^verbatim>\<open>list\<close> and \<^verbatim>\<open>dict\<close> (the items in insertion order, keys distinct). The script never
  computes with a number, so a float is kept as its literal.
\<close>

datatype json =
    JNull
  | JBool bool
  | JInt int
  | JFloat string
  | JStr string
  | JArr "json list"
  | JObj "(string \<times> json) list"

text \<open>\<^verbatim>\<open>len(v)\<close>: defined on lists, strings and dicts, \<^verbatim>\<open>TypeError\<close> otherwise.\<close>

fun py_len :: "json \<Rightarrow> py_error + int" where
  "py_len (JArr xs) = Inr (int (length xs))"
| "py_len (JStr s) = Inr (int (length s))"
| "py_len (JObj kvs) = Inr (int (length kvs))"
| "py_len v = Inl TypeError"

text \<open>
  \<^verbatim>\<open>v[i]\<close> with an integer subscript: a negative index counts from the end, an index out
  of range raises \<^verbatim>\<open>IndexError\<close>; a dict decoded from JSON has string keys only, so an
  integer key is a \<^verbatim>\<open>KeyError\<close>; other values are not subscriptable.
\<close>

definition py_position :: "nat \<Rightarrow> int \<Rightarrow> nat option" where
  "py_position len i =
     (if 0 \<le> i \<and> i < int len then Some (nat i)
      else if i < 0 \<and> - int len \<le> i then Some (nat (int len + i))
      else None)"

fun py_index :: "json \<Rightarrow> int \<Rightarrow> py_error + json" where
  "py_index (JArr xs) i =
     (case py_position (length xs) i of Some k \<Rightarrow> Inr (xs ! k) | None \<Rightarrow> Inl IndexError)"
| "py_index (JStr s) i =
     (case py_position (length s) i of Some k \<Rightarrow> Inr (JStr [s ! k]) | None \<Rightarrow> Inl IndexError)"
| "py_index (JObj kvs) i = Inl KeyError"
| "py_index v i = Inl TypeError"

text \<open>
  \<^verbatim>\<open>v["key"]\<close> with a string subscript: a lookup on a dict (\<^verbatim>\<open>KeyError\<close> when the key is
  missing), \<^verbatim>\<open>TypeError\<close> on everything else (list and string indices must be integers,
  the remaining values are not subscriptable).
\<close>

fun py_item :: "json \<Rightarrow> string \<Rightarrow> py_error + json" where
  "py_item (JObj kvs) k = (case map_of kvs k of Some v \<Rightarrow> Inr v | None \<Rightarrow> Inl KeyError)"
| "py_item v k = Inl TypeError"

text \<open>\<^verbatim>\<open>v.get(key, default)\<close>: only a dict has the method.\<close>

fun py_get :: "json \<Rightarrow> string \<Rightarrow> json \<Rightarrow> py_error + json" where
  "py_get (JObj kvs) k d = Inr (case map_of kvs k of Some v \<Rightarrow> v | None \<Rightarrow> d)"
| "py_get v k d = Inl AttributeError"

text \<open>Iteration: the items of a list, the characters of a string, the keys of a dict.\<close>

fun py_iter :: "json \<Rightarrow> py_error + json list" where
  "py_iter (JArr xs) = Inr xs"
| "py_iter (JStr s) = Inr (map (\<lambda>c. JStr [c]) s)"
| "py_iter (JObj kvs) = Inr (map (\<lambda>kv. JStr (fst kv)) kvs)"
| "py_iter v = Inl TypeError"

text \<open>\<^verbatim>\<open>str.isspace\<close> on the code points below 256, and \<^verbatim>\<open>str.strip()\<close>.\<close>

definition py_isspace :: "char \<Rightarrow> bool" where
  "py_isspace c =
     (let n = (of_char c :: nat)
      in (9 \<le> n \<and> n \<le> 13) \<or> (28 \<le> n \<and> n \<le> 32) \<or> n = 133 \<or> n = 160)"

definition strip :: "string \<Rightarrow> string" where
  "strip s = rev (dropWhile py_isspace (rev (dropWhile py_isspace s)))"

text \<open>
  \<^verbatim>\<open>s.replace(old, new)\<close>: the occurrences of \<open>old\<close> are found from left to right and do
  not overlap. With an empty \<open>old\<close> Python puts \<open>new\<close> before every character and at the
  end.
\<close>

fun replace_ne :: "string \<Rightarrow> string \<Rightarrow> string \<Rightarrow> string" where
  "replace_ne old new [] = []"
| "replace_ne old new (c # cs) =
     (if old \<noteq> [] \<and> prefix old (c # cs)
      then new @ replace_ne old new (drop (length old) (c # cs))
      else c # replace_ne old new cs)"

definition replace :: "string \<Rightarrow> string \<Rightarrow> string \<Rightarrow> string" where
  "replace s old new =
     (if old = [] then new @ concat (map (\<lambda>c. c # new) s) else replace_ne old new s)"

text \<open>\<^verbatim>\<open>sep.join(xs)\<close>.\<close>

fun py_join :: "string \<Rightarrow> string list \<Rightarrow> string" where
  "py_join sep [] = []"
| "py_join sep [x] = x"
| "py_join sep (x # y # ys) = x @ sep @ py_join sep (y # ys)"

text \<open>\<^verbatim>\<open>str(n)\<close> for an integer: decimal digits, with a sign for negative numbers.\<close>

fun str_nat :: "nat \<Rightarrow> string" where
  "str_nat n =
     (if n < 10 then [char_of (48 + n)]
      else str_nat (n div 10) @ [char_of (48 + n mod 10)])"

definition str_int :: "int \<Rightarrow> string" where
  "str_int i = (if i < 0 then CHR ''-'' # str_nat (nat (- i)) else str_nat (nat i))"

section \<open>The world outside the script\<close>

text \<open>
  Three things the script calls are not its own code and are parameters of the model:
  \<^item> \<open>generate_content\<close>: the remote model behind \<^verbatim>\<open>model.generate_content(content)\<close>
    followed by \<^verbatim>\<open>response.text\<close>. \<open>Inr text\<close> is a reply; \<open>Inl msg\<close> is any exception
    raised by the call or by reading the reply, with \<open>msg\<close> what \<^verbatim>\<open>str(e)\<close> gives. The
    content list is \<^verbatim>\<open>[prompt, image]\<close> when an image is given and \<^verbatim>\<open>[prompt]\<close> otherwise,
    which is the pair of the prompt and the optional image.
  \<^item> \<open>json_loads\<close>: \<^verbatim>\<open>json.loads\<close>. \<open>Inr v\<close> is the decoded value; \<open>Inl e\<close> is the
    exception it raises: \<^verbatim>\<open>json.JSONDecodeError\<close> for text that is not JSON, and also
    \<^verbatim>\<open>RecursionError\<close> for text nested too deeply and \<^verbatim>\<open>ValueError\<close> for an integer with
    more digits than Python converts.
  \<^item> \<open>py_repr\<close>: the text Python's \<^verbatim>\<open>str()\<close> gives for a decoded value that is not a
    string (on a string \<^verbatim>\<open>str()\<close> is the identity, see \<open>py_str\<close>).
\<close>

datatype pil_image = Image nat

record runtime =
  generate_content :: "string \<Rightarrow> pil_image option \<Rightarrow> string + string"
  json_loads :: "string \<Rightarrow> py_error + json"
  py_repr :: "json \<Rightarrow> string"

definition py_str :: "runtime \<Rightarrow> json \<Rightarrow> string" where
  "py_str rt v = (case v of JStr s \<Rightarrow> s | _ \<Rightarrow> py_repr rt v)"

section \<open>Core API functions\<close>

text \<open>
  \<^verbatim>\<open>get_gemini_json_response\<close> and \<^verbatim>\<open>get_gemini_text_response\<close>. Both wrap the call in
  \<^verbatim>\<open>try ... except Exception as e\<close> and return a string built from \<^verbatim>\<open>e\<close> in the handler.
  The result type keeps a place for an escaping exception, as for every other function of
  the script.
\<close>

definition cleaned_response :: "string \<Rightarrow> string" where
  "cleaned_response text = replace (replace (strip text) ''```json'' '''') ''```'' ''''"

definition get_gemini_json_response ::
  "runtime \<Rightarrow> string \<Rightarrow> pil_image option \<Rightarrow> py_error + string" where
  \<open>get_gemini_json_response rt prompt img =
     (case generate_content rt prompt img of
        Inr text \<Rightarrow> Inr (cleaned_response text)
      | Inl e \<Rightarrow> Inr (''{"error": "API communication failed: '' @ e @ ''"}''))\<close>

definition get_gemini_text_response ::
  "runtime \<Rightarrow> string \<Rightarrow> pil_image option \<Rightarrow> py_error + string" where
  \<open>get_gemini_text_response rt prompt img =
     (case generate_content rt prompt img of
        Inr text \<Rightarrow> Inr text
      | Inl e \<Rightarrow> Inr (''Error: API communication failed. '' @ e))\<close>

section \<open>Prompt engineering functions\<close>

definition create_triage_prompt :: string where
  \<open>create_triage_prompt =
     ''\<newline>'' @
     ''    You are an AI Triage Assistant. Look at the provided medical image and generate 2-3 important, multiple-choice questions to ask the user for context.\<newline>'' @
     ''    Return a response in a strict JSON format with a single key "questions".\<newline>'' @
     ''    The value of "questions" should be a list of objects, where each object has "question_text" and a list of "options".\<newline>'' @
     ''    Example: {"questions": [{"question_text": "How long has this been present?", "options": ["< 1 day", "1-3 days", "> 3 days"]}]}\<newline>'' @
     ''    Respond ONLY with the JSON object.\<newline>'' @
     ''    ''\<close>

text \<open>
  The final-analysis template is an f-string with one hole; \<open>analysis_prompt_head\<close> is
  the literal text before \<^verbatim>\<open>{history_str}\<close> and \<open>analysis_prompt_tail\<close> the text after it.
\<close>

definition analysis_prompt_head :: string where
  \<open>analysis_prompt_head =
     ''\<newline>'' @
     ''    You are an expert medical analyst AI. You will be provided with a medical image and a triage conversation transcript.\<newline>'' @
     ''    Your task is to provide a comprehensive, safe, and transparent final analysis based on BOTH the image and the conversation.\<newline>'' @
     ''\<newline>'' @
     ''    **Triage Conversation Transcript:**\<newline>'' @
     ''    ''\<close>

definition analysis_prompt_tail :: string where
  \<open>analysis_prompt_tail =
     ''\<newline>'' @
     ''\<newline>'' @
     ''    **Analysis Task:**\<newline>'' @
     ''    Provide a detailed analysis formatted with Markdown, including these exact sections:\<newline>'' @
     ''    \<newline>'' @
     ''    1.  **Integrated Observation:** A brief summary combining visual findings with user-provided symptoms.\<newline>'' @
     ''    \<newline>'' @
     ''    2.  **Key Visual Characteristics:** A bulleted list of objective visual details.\<newline>'' @
     ''\<newline>'' @
     ''    3.  **Potential Interpretation (Multi-Paragraph Format):**\<newline>'' @
     ''        - In this section, discuss the most likely interpretations in **separate paragraphs**.\<newline>'' @
     ''        - **First Paragraph:** Begin with the most likely possibility. State your confidence level (e.g., "Confidence: High") and then, in a narrative style, explain the supporting visual and user evidence for this conclusion.\<newline>'' @
     ''        - **Subsequent Paragraph(s):** In a new paragraph, discuss a less likely possibility. State its confidence (e.g., "Confidence: Low") and explain why it is less likely, referencing the available evidence.\<newline>'' @
     ''        - Discuss no more than three possibilities in total.\<newline>'' @
     ''\<newline>'' @
     ''    4.  **Crucial Next Steps & Safety Information:**\<newline>'' @
     ''    \<newline>'' @
     ''    5.  **MANDATORY DISCLAIMER:**\<newline>'' @
     ''\<newline>'' @
     ''    Structure your response exactly as requested, with separate paragraphs for each interpretation.\<newline>'' @
     ''    ''\<close>

text \<open>
  Line 62: \<open>qa_text\<close> is the f-string of the list comprehension, \<open>history_str\<close> the
  joined text.
\<close>

definition qa_text :: "runtime \<Rightarrow> json \<times> json \<Rightarrow> string" where
  "qa_text rt qa =
     (case qa of (q, a) \<Rightarrow> ''Q: '' @ py_str rt q @ ''\<newline>A: '' @ py_str rt a)"

definition history_str :: "runtime \<Rightarrow> (json \<times> json) list \<Rightarrow> string" where
  "history_str rt conversation_history =
     py_join ''\<newline>'' (map (qa_text rt) conversation_history)"

definition create_final_analysis_prompt :: "runtime \<Rightarrow> (json \<times> json) list \<Rightarrow> string" where
  "create_final_analysis_prompt rt conversation_history =
     analysis_prompt_head @ history_str rt conversation_history @ analysis_prompt_tail"

section \<open>Session state\<close>

text \<open>
  The six keys of \<^verbatim>\<open>st.session_state\<close> with the values the script gives them when a
  session begins. The key \<^verbatim>\<open>image\<close> is the field \<open>session_image\<close>.
\<close>

record session =
  conversation_started :: bool
  triage_questions :: json
  current_question_index :: int
  conversation_history :: "(json \<times> json) list"
  final_analysis :: "string option"
  session_image :: "pil_image option"

definition init_session :: session where
  "init_session =
     \<lparr>conversation_started = False, triage_questions = JArr [], current_question_index = 0,
      conversation_history = [], final_analysis = None, session_image = None\<rparr>"

section \<open>One execution of the script\<close>

text \<open>
  What a pass receives from the browser: the value of the file uploader (\<open>None\<close> when no
  file is selected; a selected file either decodes to an image or makes \<^verbatim>\<open>Image.open\<close>
  raise) and the widget whose click triggered the pass, if any. \<^verbatim>\<open>st.button\<close> returns
  \<^verbatim>\<open>True\<close> exactly for that widget. The option buttons are told apart by their
  \<^verbatim>\<open>key\<close>. A pass triggered by \<^verbatim>\<open>st.rerun()\<close> has no clicked widget.

  Exceptions that the widget library itself raises for a degenerate layout (no columns,
  two buttons with one key) are not modelled: they end a pass without touching the
  session, so every session state reached with them is reached without them.
\<close>

datatype upload = Decodable pil_image | Corrupt

datatype widget = StartTriageButton | OptionButton string

record input =
  uploaded_file :: "upload option"
  clicked :: "widget option"

datatype gateway = Structured | Narrative

datatype event =
    ShowImage pil_image
  | ShowButton widget
  | ShowSpinner string
  | ShowError string
  | ChatWrite string json
  | ShowColumns int
  | ModelCall gateway string "pil_image option"
  | ShowMarkdown string
  | ShowInfo string

text \<open>
  A pass ends normally, or with \<^verbatim>\<open>st.rerun()\<close> (which stops the script at once and asks for
  another pass), or with an exception nobody catches.
\<close>

datatype outcome = Done | Rerun | Raised py_error

type_synonym result = "outcome \<times> session \<times> event list"

text \<open>Sequencing of two statements: the second runs only when the first ended normally.\<close>

definition then_do :: "result \<Rightarrow> (session \<Rightarrow> result) \<Rightarrow> result" where
  "then_do r f =
     (case r of
        (Done, s, ev) \<Rightarrow> (case f s of (oc, s', ev') \<Rightarrow> (oc, s', ev @ ev'))
      | _ \<Rightarrow> r)"

definition Image_open :: "upload \<Rightarrow> py_error + pil_image" where
  "Image_open f = (case f of Decodable img \<Rightarrow> Inr img | Corrupt \<Rightarrow> Inl UnidentifiedImageError)"

text \<open>Lines 118-119: the image is stored only when none is stored yet.\<close>

definition upload_handler :: "pil_image \<Rightarrow> session \<Rightarrow> session" where
  "upload_handler img s =
     (if session_image s = None then s\<lparr>session_image := Some img\<rparr> else s)"

text \<open>
  Lines 124-135, the body of the start button. The \<^verbatim>\<open>try\<close> block is \<open>parse_questions\<close>:
  whatever \<^verbatim>\<open>json.loads\<close> or \<^verbatim>\<open>data.get\<close> raises leaves the block. The handler catches
  \<^verbatim>\<open>json.JSONDecodeError\<close> and \<^verbatim>\<open>KeyError\<close> and nothing else (\<^verbatim>\<open>ValueError\<close> is a
  superclass of \<^verbatim>\<open>json.JSONDecodeError\<close>, not a subclass, so it is not caught).
\<close>

definition parse_questions :: "runtime \<Rightarrow> string \<Rightarrow> py_error + json" where
  "parse_questions rt response_str =
     (case json_loads rt response_str of
        Inl e \<Rightarrow> Inl e
      | Inr data \<Rightarrow> py_get data ''questions'' (JArr []))"

definition triage_error_message :: string where
  "triage_error_message =
     ''The AI failed to generate valid triage questions. Please try again.''"

definition start_triage_handler :: "runtime \<Rightarrow> session \<Rightarrow> result" where
  "start_triage_handler rt s =
     (let prompt = create_triage_prompt;
          ev = [ShowSpinner ''AI is assessing the image...'',
                ModelCall Structured prompt (session_image s)]
      in case get_gemini_json_response rt prompt (session_image s) of
           Inl e \<Rightarrow> (Raised e, s, ev)
         | Inr response_str \<Rightarrow>
             (case parse_questions rt response_str of
                Inr questions \<Rightarrow>
                  (Rerun,
                   s\<lparr>triage_questions := questions,
                     conversation_started := True,
                     current_question_index := 0,
                     conversation_history := []\<rparr>,
                   ev)
              | Inl e \<Rightarrow>
                  if e = JSONDecodeError \<or> e = KeyError
                  then (Done, s, ev @ [ShowError triage_error_message])
                  else (Raised e, s, ev)))"

text \<open>Lines 122-123: the start button is offered, and its body run when it was clicked.\<close>

definition triage_block :: "runtime \<Rightarrow> input \<Rightarrow> session \<Rightarrow> result" where
  "triage_block rt inp s =
     (if \<not> conversation_started s \<and> final_analysis s = None
      then (if clicked inp = Some StartTriageButton
            then then_do (Done, s, [ShowButton StartTriageButton]) (start_triage_handler rt)
            else (Done, s, [ShowButton StartTriageButton]))
      else (Done, s, []))"

text \<open>Lines 138-142: the transcript so far, as chat messages.\<close>

definition show_history :: "(json \<times> json) list \<Rightarrow> event list" where
  "show_history h = concat (map (\<lambda>(q, a). [ChatWrite ''assistant'' q, ChatWrite ''user'' a]) h)"

text \<open>
  Lines 152-156: one button per option, in order. The first button that was clicked
  appends the answer, advances the index and reruns; the buttons after it are not reached.
\<close>

definition button_key :: "runtime \<Rightarrow> int \<Rightarrow> json \<Rightarrow> string" where
  "button_key rt i option = ''q'' @ str_int i @ ''_'' @ py_str rt option"

fun option_buttons :: "runtime \<Rightarrow> input \<Rightarrow> json \<Rightarrow> json list \<Rightarrow> session \<Rightarrow> result" where
  "option_buttons rt inp q_text [] s = (Done, s, [])"
| "option_buttons rt inp q_text (option # rest) s =
     (let k = button_key rt (current_question_index s) option
      in if clicked inp = Some (OptionButton k)
         then (Rerun,
               s\<lparr>conversation_history := conversation_history s @ [(q_text, option)],
                 current_question_index := current_question_index s + 1\<rparr>,
               [ShowButton (OptionButton k)])
         else then_do (Done, s, [ShowButton (OptionButton k)])
                (option_buttons rt inp q_text rest))"

text \<open>Lines 145-156: the current question and its option buttons.\<close>

definition ask_question :: "runtime \<Rightarrow> input \<Rightarrow> session \<Rightarrow> result" where
  "ask_question rt inp s =
     (case py_index (triage_questions s) (current_question_index s) of
        Inl e \<Rightarrow> (Raised e, s, [])
      | Inr current_q \<Rightarrow>
     (case py_item current_q ''question_text'' of
        Inl e \<Rightarrow> (Raised e, s, [])
      | Inr q_text \<Rightarrow>
     (case py_item current_q ''options'' of
        Inl e \<Rightarrow> (Raised e, s, [])
      | Inr q_options \<Rightarrow>
     (case py_len q_options of
        Inl e \<Rightarrow> (Raised e, s, [ChatWrite ''assistant'' q_text])
      | Inr n \<Rightarrow>
     (case py_iter q_options of
        Inl e \<Rightarrow> (Raised e, s, [ChatWrite ''assistant'' q_text, ShowColumns n])
      | Inr opts \<Rightarrow>
          then_do (Done, s, [ChatWrite ''assistant'' q_text, ShowColumns n])
            (option_buttons rt inp q_text opts))))))"

text \<open>Lines 158-163: the final analysis.\<close>

definition final_analysis_step :: "runtime \<Rightarrow> session \<Rightarrow> result" where
  "final_analysis_step rt s =
     (let s1 = s\<lparr>conversation_started := False\<rparr>;
          final_prompt = create_final_analysis_prompt rt (conversation_history s1);
          ev = [ShowSpinner ''Generating final analysis based on your feedback...'',
                ModelCall Narrative final_prompt (session_image s1)]
      in case get_gemini_text_response rt final_prompt (session_image s1) of
           Inl e \<Rightarrow> (Raised e, s1, ev)
         | Inr final_analysis_text \<Rightarrow>
             (Rerun, s1\<lparr>final_analysis := Some final_analysis_text\<rparr>, ev))"

text \<open>Lines 137-163.\<close>

definition conversation_block :: "runtime \<Rightarrow> input \<Rightarrow> session \<Rightarrow> result" where
  "conversation_block rt inp s =
     (if conversation_started s
      then (case py_len (triage_questions s) of
              Inl e \<Rightarrow> (Raised e, s, show_history (conversation_history s))
            | Inr n \<Rightarrow>
                then_do (Done, s, show_history (conversation_history s))
                  (if current_question_index s < n
                   then ask_question rt inp
                   else final_analysis_step rt))
      else (Done, s, []))"

text \<open>Lines 165-170: the right column. An empty analysis text is falsy.\<close>

definition analysis_panel :: "session \<Rightarrow> result" where
  "analysis_panel s =
     (case final_analysis s of
        Some t \<Rightarrow>
          if t \<noteq> [] then (Done, s, [ShowMarkdown t])
          else (Done, s, [ShowInfo ''The final, evidence-based analysis will appear here after you complete the triage conversation.''])
      | None \<Rightarrow> (Done, s, [ShowInfo ''The final, evidence-based analysis will appear here after you complete the triage conversation.'']))"

text \<open>Lines 112-170: the left column, then the right column.\<close>

definition left_column :: "runtime \<Rightarrow> input \<Rightarrow> session \<Rightarrow> result" where
  "left_column rt inp s =
     (case uploaded_file inp of
        None \<Rightarrow> (Done, s, [])
      | Some f \<Rightarrow>
          (case Image_open f of
             Inl e \<Rightarrow> (Raised e, s, [])
           | Inr img \<Rightarrow>
               then_do (then_do (Done, upload_handler img s, [ShowImage img]) (triage_block rt inp))
                 (conversation_block rt inp)))"

definition script_pass :: "runtime \<Rightarrow> input \<Rightarrow> session \<Rightarrow> result" where
  "script_pass rt inp s = then_do (left_column rt inp s) analysis_panel"

section \<open>Executions of the session\<close>

text \<open>
  The session states the script can produce: the initial one, and every state left by a
  pass started in such a state, whatever the browser sends and whatever the outside world
  answers. \<open>run s tr\<close> also keeps the effects of all passes so far.
\<close>

inductive reachable :: "session \<Rightarrow> bool" where
  reachable_init: "reachable init_session"
| reachable_pass: "reachable s \<Longrightarrow> script_pass rt inp s = (oc, s', ev) \<Longrightarrow> reachable s'"

inductive run :: "session \<Rightarrow> event list \<Rightarrow> bool" where
  run_init: "run init_session []"
| run_pass: "run s tr \<Longrightarrow> script_pass rt inp s = (oc, s', ev) \<Longrightarrow> run s' (tr @ ev)"

fun is_narrative_call :: "event \<Rightarrow> bool" where
  "is_narrative_call (ModelCall Narrative p i) = True"
| "is_narrative_call e = False"

definition narrative_calls :: "event list \<Rightarrow> event list" where
  "narrative_calls ev = filter is_narrative_call ev"

text \<open>The calls of either gateway function among the effects of a pass.\<close>

fun is_model_call :: "event \<Rightarrow> bool" where
  "is_model_call (ModelCall g p i) = True"
| "is_model_call e = False"

text \<open>\<^verbatim>\<open>isinstance(v, dict)\<close> for a decoded value.\<close>

fun is_object :: "json \<Rightarrow> bool" where
  "is_object (JObj kvs) = True"
| "is_object v = False"

text \<open>
  What one pass can do to the session, apart from storing the uploaded image: nothing,
  start the triage, record one answer, or produce the final analysis. The last component
  lists the calls of the narrative gateway function the pass makes.
\<close>

inductive transition :: "runtime \<Rightarrow> session \<Rightarrow> session \<Rightarrow> event list \<Rightarrow> bool" where
  stay: "transition rt s s []"
| start:
    "\<not> conversation_started s \<Longrightarrow> final_analysis s = None \<Longrightarrow>
     transition rt s
       (s\<lparr>triage_questions := q, conversation_started := True,
          current_question_index := 0, conversation_history := []\<rparr>) []"
| answer:
    "conversation_started s \<Longrightarrow> py_len (triage_questions s) = Inr n \<Longrightarrow>
     current_question_index s < n \<Longrightarrow>
     transition rt s
       (s\<lparr>conversation_history := conversation_history s @ [(q, opt)],
          current_question_index := current_question_index s + 1\<rparr>) []"
| analyse:
    "conversation_started s \<Longrightarrow> py_len (triage_questions s) = Inr n \<Longrightarrow>
     \<not> current_question_index s < n \<Longrightarrow>
     get_gemini_text_response rt (create_final_analysis_prompt rt (conversation_history s))
       (session_image s) = Inr t \<Longrightarrow>
     transition rt s
       (s\<lparr>conversation_started := False, final_analysis := Some t\<rparr>)
       [ModelCall Narrative (create_final_analysis_prompt rt (conversation_history s))
          (session_image s)]"

text \<open>
  \<^verbatim>\<open>0 <= current_question_index <= len(triage_questions)\<close>: the stored value has a length
  and the index lies between \<^verbatim>\<open>0\<close> and that length. Where \<^verbatim>\<open>len\<close> raises there is no such
  interval and the predicate is false. \<open>analysis_pending\<close> is the test of lines 137 and 144
  that sends a pass into the final-analysis branch.
\<close>

definition index_in_range :: "session \<Rightarrow> bool" where
  "index_in_range s =
     (case py_len (triage_questions s) of
        Inr n \<Rightarrow> 0 \<le> current_question_index s \<and> current_question_index s \<le> n
      | Inl e \<Rightarrow> False)"

definition analysis_pending :: "session \<Rightarrow> bool" where
  "analysis_pending s =
     (conversation_started s \<and>
      (case py_len (triage_questions s) of
         Inr n \<Rightarrow> \<not> current_question_index s < n
       | Inl e \<Rightarrow> False))"

text \<open>
  What every pass preserves, used in the proofs below: the transcript has one entry per
  question passed; the index is at most the length of the stored questions, and is
  still \<^verbatim>\<open>0\<close> where the stored value has no length; a finished analysis means the
  conversation is no longer marked as started.
\<close>

definition session_inv :: "session \<Rightarrow> bool" where
  "session_inv s \<longleftrightarrow>
     int (length (conversation_history s)) = current_question_index s \<and>
     (case py_len (triage_questions s) of
        Inr n \<Rightarrow> current_question_index s \<le> n
      | Inl e \<Rightarrow> current_question_index s = 0) \<and>
     (final_analysis s \<noteq> None \<longrightarrow> \<not> conversation_started s)"

text \<open>
  The phases of the specification (Idle, AwaitingTriageStart, AskingQuestion(i),
  AnalysisPending, Complete), read off the session with the tests the script itself
  dispatches on: \<^verbatim>\<open>final_analysis\<close>, \<^verbatim>\<open>conversation_started\<close> and
  \<^verbatim>\<open>current_question_index < len(triage_questions)\<close>. Where \<^verbatim>\<open>len\<close> raises there is no
  phase.
\<close>

datatype phase = Idle | AwaitingTriageStart | AskingQuestion int | AnalysisPending | Complete

definition spec_phase :: "session \<Rightarrow> py_error + phase" where
  "spec_phase s =
     (if final_analysis s \<noteq> None then Inr Complete
      else if conversation_started s
      then (case py_len (triage_questions s) of
              Inl e \<Rightarrow> Inl e
            | Inr n \<Rightarrow>
                Inr (if current_question_index s < n
                     then AskingQuestion (current_question_index s)
                     else AnalysisPending))
      else if session_image s = None then Inr Idle
      else Inr AwaitingTriageStart)"

section \<open>Reading a transcript back from a prompt\<close>

text \<open>
  \<^verbatim>\<open>text.split("\n")\<close>, and the \<^verbatim>\<open>Q:\<close>/\<^verbatim>\<open>A:\<close> line pairs of a list of lines: a line that
  starts, after its indentation, with \<^verbatim>\<open>Q: \<close> and is directly followed by a line that starts
  with \<^verbatim>\<open>A: \<close> is one pair.
\<close>

fun split_lines :: "string \<Rightarrow> string list" where
  "split_lines [] = [[]]"
| "split_lines (c # cs) =
     (if c = CHR 0x0A then [] # split_lines cs
      else (case split_lines cs of l # ls \<Rightarrow> (c # l) # ls | [] \<Rightarrow> [[c]]))"

definition lstrip :: "string \<Rightarrow> string" where
  "lstrip s = dropWhile py_isspace s"

definition is_q_line :: "string \<Rightarrow> bool" where
  "is_q_line l = prefix ''Q: '' (lstrip l)"

definition is_a_line :: "string \<Rightarrow> bool" where
  "is_a_line l = prefix ''A: '' (lstrip l)"

fun qa_pairs :: "string list \<Rightarrow> (string \<times> string) list" where
  "qa_pairs (l1 # l2 # ls) =
     (if is_q_line l1 \<and> is_a_line l2
      then (drop 3 (lstrip l1), drop 3 (lstrip l2)) # qa_pairs ls
      else qa_pairs (l2 # ls))"
| "qa_pairs ls = []"

definition has_newline :: "string \<Rightarrow> bool" where
  "has_newline s = (CHR 0x0A \<in> set s)"

text \<open>
  The transcript as the strings the f-string prints, the two lines one entry becomes, and
  the histories none of whose texts contains a line break.
\<close>

definition transcript :: "runtime \<Rightarrow> (json \<times> json) list \<Rightarrow> (string \<times> string) list" where
  "transcript rt h = map (\<lambda>(q, a). (py_str rt q, py_str rt a)) h"

definition block_lines :: "string \<times> string \<Rightarrow> string list" where
  "block_lines qa = [''Q: '' @ fst qa, ''A: '' @ snd qa]"

definition single_line :: "runtime \<Rightarrow> (json \<times> json) list \<Rightarrow> bool" where
  "single_line rt h =
     list_all (\<lambda>(q, a). \<not> has_newline (py_str rt q) \<and> \<not> has_newline (py_str rt a)) h"

section \<open>Sample data\<close>

text \<open>
  A reply of the remote model with one question, the value \<^verbatim>\<open>json.loads\<close> decodes it to,
  and a runtime that answers the triage prompt with \<open>r_json\<close> and every other prompt with
  \<open>r_text\<close>. \<open>sample_loads\<close> agrees with \<^verbatim>\<open>json.loads\<close> on the strings it is applied to
  below: the sample reply, two other JSON documents, \<open>deep_reply\<close> (1500 opening
  brackets, on which \<^verbatim>\<open>json.loads\<close> raises \<^verbatim>\<open>RecursionError\<close>), and text that is not JSON.
\<close>

definition sample_reply :: string where
  \<open>sample_reply =
     ''```json\<newline>{"questions": [{"question_text": "Duration?", "options": ["<1d", "1-3d", ">3d"]}]}\<newline>```''\<close>

definition sample_questions :: json where
  "sample_questions =
     JArr [JObj [(''question_text'', JStr ''Duration?''),
                 (''options'', JArr [JStr ''<1d'', JStr ''1-3d'', JStr ''>3d''])]]"

definition deep_reply :: string where
  "deep_reply = replicate 1500 CHR ''[''"

definition sample_loads :: "string \<Rightarrow> py_error + json" where
  \<open>sample_loads s =
     (if s = ''\<newline>{"questions": [{"question_text": "Duration?", "options": ["<1d", "1-3d", ">3d"]}]}\<newline>''
      then Inr (JObj [(''questions'', sample_questions)])
      else if s = ''{"questions": 5}'' then Inr (JObj [(''questions'', JInt 5)])
      else if s = ''[1, 2]'' then Inr (JArr [JInt 1, JInt 2])
      else if s = deep_reply then Inl RecursionError
      else Inl JSONDecodeError)\<close>

definition sample_runtime :: "string + string \<Rightarrow> string + string \<Rightarrow> runtime" where
  "sample_runtime r_json r_text =
     \<lparr>generate_content = (\<lambda>p i. if p = create_triage_prompt then r_json else r_text),
      json_loads = sample_loads,
      py_repr = (\<lambda>v. ''?'')\<rparr>"

definition sample_upload :: input where
  "sample_upload = \<lparr>uploaded_file = Some (Decodable (Image 1)), clicked = None\<rparr>"

definition sample_click :: "widget \<Rightarrow> input" where
  "sample_click w = \<lparr>uploaded_file = Some (Decodable (Image 1)), clicked = Some w\<rparr>"

text \<open>The session after the upload, after the triage start, and after the answer.\<close>

definition session_uploaded :: session where
  "session_uploaded = init_session\<lparr>session_image := Some (Image 1)\<rparr>"

definition session_asking :: session where
  "session_asking =
     session_uploaded\<lparr>triage_questions := sample_questions, conversation_started := True\<rparr>"

definition session_answered :: session where
  "session_answered =
     session_asking\<lparr>conversation_history := [(JStr ''Duration?'', JStr ''1-3d'')],
                    current_question_index := 1\<rparr>"

definition session_complete :: session where
  "session_complete =
     session_answered\<lparr>conversation_started := False, final_analysis := Some ''**Analysis**''\<rparr>"

text \<open>
  Runtimes for the cases below: the sample reply; a reply that is not JSON; a reply that
  is a JSON list; a reply whose \<^verbatim>\<open>"questions"\<close> is a number; a reply nested too deeply;
  and a remote model that answers the triage prompt but fails on the analysis prompt.
\<close>

definition rt_sample :: runtime where
  "rt_sample = sample_runtime (Inr sample_reply) (Inr ''**Analysis**'')"


definition rt_list_reply :: runtime where
  "rt_list_reply = sample_runtime (Inr ''[1, 2]'') (Inr ''**Analysis**'')"

definition rt_number_questions :: runtime where
  \<open>rt_number_questions = sample_runtime (Inr ''{"questions": 5}'') (Inr ''**Analysis**'')\<close>


definition rt_narrative_down :: runtime where
  "rt_narrative_down = sample_runtime (Inr sample_reply) (Inl ''timeout'')"

definition second_upload :: input where
  "second_upload = \<lparr>uploaded_file = Some (Decodable (Image 2)), clicked = None\<rparr>"

text \<open>A transcript whose question text holds two line breaks.\<close>

definition history_with_line_breaks :: "(json \<times> json) list" where
  "history_with_line_breaks = [(JStr ''x\<newline>A: y\<newline>Q: w'', JStr ''z'')]"

text \<open>The session after a triage start whose reply gave a number for the questions.\<close>

definition session_bad_questions :: session where
  "session_bad_questions =
     session_uploaded\<lparr>triage_questions := JInt 5, conversation_started := True\<rparr>"

section \<open>What one pass does\<close>

lemma then_do_Done [simp]:
  "then_do (Done, s, ev) f = (case f s of (oc, s', ev') \<Rightarrow> (oc, s', ev @ ev'))"
  by (simp add: then_do_def)

lemma then_do_not_Done [simp]:
  "oc \<noteq> Done \<Longrightarrow> then_do (oc, s, ev) f = (oc, s, ev)"
  by (cases oc) (simp_all add: then_do_def)

lemma text_response_total:
  "get_gemini_text_response rt p i =
     Inr (case generate_content rt p i of Inr t \<Rightarrow> t
          | Inl e \<Rightarrow> ''Error: API communication failed. '' @ e)"
  by (simp add: get_gemini_text_response_def split: sum.splits)

lemma json_response_total:
  "\<exists>r. get_gemini_json_response rt p i = Inr r"
  by (simp add: get_gemini_json_response_def split: sum.splits)

lemma narrative_calls_append [simp]:
  "narrative_calls (xs @ ys) = narrative_calls xs @ narrative_calls ys"
  by (simp add: narrative_calls_def)

lemma narrative_calls_show_history [simp]: "narrative_calls (show_history h) = []"
  by (induction h) (auto simp: narrative_calls_def show_history_def)

lemma final_analysis_step_result:
  "final_analysis_step rt s = (oc, s', ev) \<Longrightarrow>
     oc = Rerun \<and>
     (\<exists>t. get_gemini_text_response rt (create_final_analysis_prompt rt (conversation_history s))
             (session_image s) = Inr t \<and>
          s' = s\<lparr>conversation_started := False, final_analysis := Some t\<rparr>) \<and>
     ev = [ShowSpinner ''Generating final analysis based on your feedback...'',
           ModelCall Narrative (create_final_analysis_prompt rt (conversation_history s))
             (session_image s)]"
  by (auto simp: final_analysis_step_def text_response_total Let_def)

lemma start_triage_handler_result:
  assumes "start_triage_handler rt s = (oc, s', ev)"
  shows "narrative_calls ev = [] \<and>
         ((s' = s \<and> oc \<noteq> Rerun) \<or>
          (oc = Rerun \<and> (\<exists>q. s' = s\<lparr>triage_questions := q, conversation_started := True,
                                      current_question_index := 0, conversation_history := []\<rparr>)))"
  using assms
  by (auto simp: start_triage_handler_def Let_def narrative_calls_def
           split: sum.splits if_splits)

lemma triage_block_result:
  assumes "triage_block rt inp s = (oc, s', ev)"
  shows "narrative_calls ev = [] \<and>
         ((s' = s \<and> oc \<noteq> Rerun) \<or>
          (oc = Rerun \<and> \<not> conversation_started s \<and> final_analysis s = None \<and>
           (\<exists>q. s' = s\<lparr>triage_questions := q, conversation_started := True,
                        current_question_index := 0, conversation_history := []\<rparr>)))"
proof (cases "\<not> conversation_started s \<and> final_analysis s = None \<and> clicked inp = Some StartTriageButton")
  case True
  then obtain ev2 where h: "start_triage_handler rt s = (oc, s', ev2)"
    and e: "ev = ShowButton StartTriageButton # ev2"
    using assms by (auto simp: triage_block_def split: prod.splits)
  from start_triage_handler_result [OF h] e True show ?thesis
    by (auto simp: narrative_calls_def)
next
  case False
  with assms show ?thesis
    by (auto simp: triage_block_def narrative_calls_def split: if_splits)
qed

lemma option_buttons_result:
  "option_buttons rt inp q_text opts s = (oc, s', ev) \<Longrightarrow>
     narrative_calls ev = [] \<and>
     ((s' = s \<and> oc = Done) \<or>
      (oc = Rerun \<and> (\<exists>opt. s' = s\<lparr>conversation_history := conversation_history s @ [(q_text, opt)],
                                    current_question_index := current_question_index s + 1\<rparr>)))"
proof (induction opts arbitrary: oc s' ev)
  case Nil
  then show ?case by (simp add: narrative_calls_def)
next
  case (Cons opt rest)
  show ?case
  proof (cases "clicked inp = Some (OptionButton (button_key rt (current_question_index s) opt))")
    case True
    with Cons.prems show ?thesis by (auto simp: Let_def narrative_calls_def)
  next
    case False
    with Cons.prems obtain ev2 where
      r: "option_buttons rt inp q_text rest s = (oc, s', ev2)"
      and e: "ev = ShowButton (OptionButton (button_key rt (current_question_index s) opt)) # ev2"
      by (auto simp: Let_def split: prod.splits)
    from Cons.IH [OF r] e show ?thesis by (auto simp: narrative_calls_def)
  qed
qed

lemma ask_question_result:
  assumes "ask_question rt inp s = (oc, s', ev)"
  shows "narrative_calls ev = [] \<and>
     ((s' = s \<and> oc \<noteq> Rerun) \<or>
      (oc = Rerun \<and> (\<exists>q opt. s' = s\<lparr>conversation_history := conversation_history s @ [(q, opt)],
                                    current_question_index := current_question_index s + 1\<rparr>)))"
  using assms
  apply (simp add: ask_question_def split: sum.splits prod.splits)
      apply (auto simp: narrative_calls_def dest!: option_buttons_result)
  done


lemma conversation_block_result:
  assumes "conversation_block rt inp s = (oc, s', ev)"
  shows "transition rt s s' (narrative_calls ev)"
proof (cases "conversation_started s")
  case False
  with assms show ?thesis
    by (auto simp: conversation_block_def narrative_calls_def intro: transition.stay)
next
  case started: True
  show ?thesis
  proof (cases "py_len (triage_questions s)")
    case (Inl e)
    with started assms show ?thesis
      by (auto simp: conversation_block_def intro: transition.stay)
  next
    case (Inr n)
    show ?thesis
    proof (cases "current_question_index s < n")
      case True
      with started Inr assms obtain ev2 where
        a: "ask_question rt inp s = (oc, s', ev2)"
        and e: "ev = show_history (conversation_history s) @ ev2"
        by (auto simp: conversation_block_def split: prod.splits)
      from ask_question_result [OF a] e started Inr True show ?thesis
        by (auto intro: transition.stay transition.answer)
    next
      case False
      with started Inr assms obtain ev2 where
        a: "final_analysis_step rt s = (oc, s', ev2)"
        and e: "ev = show_history (conversation_history s) @ ev2"
        by (auto simp: conversation_block_def split: prod.splits)
      from final_analysis_step_result [OF a] obtain t where
        t: "get_gemini_text_response rt (create_final_analysis_prompt rt (conversation_history s))
              (session_image s) = Inr t"
        and s': "s' = s\<lparr>conversation_started := False, final_analysis := Some t\<rparr>"
        and ev2: "ev2 = [ShowSpinner ''Generating final analysis based on your feedback...'',
           ModelCall Narrative (create_final_analysis_prompt rt (conversation_history s))
             (session_image s)]"
        by blast
      have "narrative_calls ev =
              [ModelCall Narrative (create_final_analysis_prompt rt (conversation_history s))
                 (session_image s)]"
        by (simp add: e ev2) (simp add: narrative_calls_def)
      with transition.analyse [OF started Inr False t] s' show ?thesis by simp
    qed
  qed
qed

lemma transition_start_block:
  assumes "triage_block rt inp s = (oc, s', ev)"
  shows "transition rt s s' (narrative_calls ev) \<and> (oc = Done \<longrightarrow> s' = s) \<and> narrative_calls ev = []"
  using triage_block_result [OF assms]
  by (auto intro: transition.stay transition.start)

lemma analysis_panel_result:
  "analysis_panel s = (oc, s', ev) \<Longrightarrow> oc = Done \<and> s' = s \<and> narrative_calls ev = []"
  by (auto simp: analysis_panel_def narrative_calls_def split: option.splits if_splits)

lemma stages_result:
  assumes "then_do (then_do (Done, s1, ev0) (triage_block rt inp)) (conversation_block rt inp)
             = (oc, s', ev)"
    and "narrative_calls ev0 = []"
  shows "transition rt s1 s' (narrative_calls ev)"
proof -
  obtain oc1 s2 ev1 where tb: "triage_block rt inp s1 = (oc1, s2, ev1)"
    by (cases "triage_block rt inp s1") auto
  note t = transition_start_block [OF tb]
  show ?thesis
  proof (cases "oc1 = Done")
    case True
    with t have eq: "s2 = s1" by simp
    from True tb assms(1) eq obtain ev2 where
      cb: "conversation_block rt inp s1 = (oc, s', ev2)" and e: "ev = (ev0 @ ev1) @ ev2"
      by (auto split: prod.splits)
    from conversation_block_result [OF cb] t e assms(2) show ?thesis by simp
  next
    case False
    with tb assms(1) have "oc = oc1" "s' = s2" "ev = ev0 @ ev1" by auto
    with t assms(2) show ?thesis by auto
  qed
qed

lemma left_column_result:
  assumes "left_column rt inp s = (oc, s', ev)"
  shows "\<exists>s1. (s1 = s \<or> (session_image s = None \<and> (\<exists>img. s1 = s\<lparr>session_image := Some img\<rparr>))) \<and>
              transition rt s1 s' (narrative_calls ev)"
proof (cases "uploaded_file inp")
  case None
  with assms show ?thesis
    by (auto simp: left_column_def narrative_calls_def intro: transition.stay)
next
  case (Some f)
  show ?thesis
  proof (cases "Image_open f")
    case (Inl e)
    with Some assms show ?thesis
      by (auto simp: left_column_def narrative_calls_def intro: transition.stay)
  next
    case (Inr img)
    with Some assms have
      "then_do (then_do (Done, upload_handler img s, [ShowImage img]) (triage_block rt inp))
         (conversation_block rt inp) = (oc, s', ev)"
      by (simp add: left_column_def)
    from stages_result [OF this] have "transition rt (upload_handler img s) s' (narrative_calls ev)"
      by (simp add: narrative_calls_def)
    then show ?thesis
      by (cases "session_image s = None") (auto simp: upload_handler_def)
  qed
qed

lemma script_pass_result:
  assumes "script_pass rt inp s = (oc, s', ev)"
  shows "\<exists>s1. (s1 = s \<or> (session_image s = None \<and> (\<exists>img. s1 = s\<lparr>session_image := Some img\<rparr>))) \<and>
              transition rt s1 s' (narrative_calls ev)"
proof -
  obtain oc1 s2 ev1 where lc: "left_column rt inp s = (oc1, s2, ev1)"
    by (cases "left_column rt inp s") auto
  have "s' = s2 \<and> narrative_calls ev = narrative_calls ev1"
  proof (cases "oc1 = Done")
    case True
    with lc assms obtain ev2 where "analysis_panel s2 = (oc, s', ev2)" "ev = ev1 @ ev2"
      by (auto simp: script_pass_def split: prod.splits)
    with analysis_panel_result [of s2 oc s' ev2] show ?thesis by simp
  next
    case False
    with lc assms show ?thesis by (simp add: script_pass_def)
  qed
  with left_column_result [OF lc] show ?thesis by simp
qed

lemma py_len_nonneg: "py_len v = Inr n \<Longrightarrow> 0 \<le> n"
  by (cases v) auto

lemma session_inv_image [simp]: "session_inv (s\<lparr>session_image := i\<rparr>) = session_inv s"
  by (simp add: session_inv_def split: sum.splits)

lemma transition_inv:
  assumes "transition rt s s' c" "session_inv s"
  shows "session_inv s'"
  using assms
proof (cases rule: transition.cases)
  case stay
  with assms show ?thesis by simp
next
  case (start q)
  with assms show ?thesis
    by (auto simp: session_inv_def split: sum.splits dest: py_len_nonneg)
next
  case (answer n q opt)
  with assms show ?thesis
    by (auto simp: session_inv_def split: sum.splits)
next
  case (analyse n t)
  with assms show ?thesis
    by (auto simp: session_inv_def split: sum.splits)
qed

lemma script_pass_inv:
  assumes "script_pass rt inp s = (oc, s', ev)" "session_inv s"
  shows "session_inv s'"
proof -
  from script_pass_result [OF assms(1)] obtain s1 where
    s1: "s1 = s \<or> (session_image s = None \<and> (\<exists>img. s1 = s\<lparr>session_image := Some img\<rparr>))"
    and t: "transition rt s1 s' (narrative_calls ev)" by blast
  from s1 assms(2) have "session_inv s1" by auto
  with t show ?thesis by (rule transition_inv)
qed

lemma reachable_inv: "reachable s \<Longrightarrow> session_inv s"
proof (induction rule: reachable.induct)
  case reachable_init
  show ?case by (simp add: session_inv_def init_session_def)
next
  case (reachable_pass s rt inp oc s' ev)
  then show ?case using script_pass_inv by blast
qed

lemma pending_pass:
  assumes "conversation_started s" "py_len (triage_questions s) = Inr n"
    "\<not> current_question_index s < n" "uploaded_file inp = Some (Decodable img)"
  shows "script_pass rt inp s =
     (Rerun,
      (upload_handler img s)\<lparr>conversation_started := False,
        final_analysis :=
          Some (case generate_content rt (create_final_analysis_prompt rt (conversation_history s))
                       (session_image (upload_handler img s)) of
                  Inr t \<Rightarrow> t
                | Inl e \<Rightarrow> ''Error: API communication failed. '' @ e)\<rparr>,
      ShowImage img # show_history (conversation_history s) @
      [ShowSpinner ''Generating final analysis based on your feedback...'',
       ModelCall Narrative (create_final_analysis_prompt rt (conversation_history s))
         (session_image (upload_handler img s))])"
  using assms
  by (simp add: script_pass_def left_column_def Image_open_def triage_block_def
      conversation_block_def final_analysis_step_def text_response_total upload_handler_def Let_def)

lemma narrative_calls_pending_events:
  "narrative_calls (ShowImage img # show_history h @ [ShowSpinner m, ModelCall Narrative p i])
     = [ModelCall Narrative p i]"
proof -
  have "narrative_calls (ShowImage img # show_history h @ [ShowSpinner m, ModelCall Narrative p i])
        = narrative_calls ([ShowImage img] @ show_history h
            @ [ShowSpinner m, ModelCall Narrative p i])"
    by simp
  also have "\<dots> = narrative_calls [ShowImage img] @ narrative_calls (show_history h)
          @ narrative_calls [ShowSpinner m, ModelCall Narrative p i]"
    by (simp only: narrative_calls_append)
  also have "\<dots> = [ModelCall Narrative p i]"
    by (simp only: narrative_calls_show_history) (simp add: narrative_calls_def)
  finally show ?thesis .
qed

lemma transition_calls:
  "transition rt s s' c \<Longrightarrow> session_inv s \<Longrightarrow>
     (c = [] \<and> final_analysis s' = final_analysis s) \<or>
     (length c = 1 \<and> final_analysis s = None \<and> final_analysis s' \<noteq> None)"
  by (erule transition.cases) (auto simp: session_inv_def)

lemma run_inv:
  "run s tr \<Longrightarrow>
     session_inv s \<and> (narrative_calls tr = [] \<longleftrightarrow> final_analysis s = None) \<and>
     length (narrative_calls tr) \<le> 1"
proof (induction rule: run.induct)
  case run_init
  show ?case
    by (simp add: session_inv_def init_session_def narrative_calls_def)
next
  case (run_pass s tr rt inp oc s' ev)
  from script_pass_result [OF run_pass.hyps(2)] obtain s1 where
    s1: "s1 = s \<or> (session_image s = None \<and> (\<exists>img. s1 = s\<lparr>session_image := Some img\<rparr>))"
    and t: "transition rt s1 s' (narrative_calls ev)" by blast
  from run_pass.IH have inv: "session_inv s" by simp
  with s1 have inv1: "session_inv s1" by auto
  from s1 have f1: "final_analysis s1 = final_analysis s" by auto
  have inv': "session_inv s'" using t inv1 by (rule transition_inv)
  from transition_calls [OF t inv1] f1 run_pass.IH inv' show ?case
    by auto
qed

lemma model_calls_show_history [simp]: "filter is_model_call (show_history h) = []"
  by (induction h) (auto simp: show_history_def)

lemma spec_phase_complete: "final_analysis s = Some t \<Longrightarrow> spec_phase s = Inr Complete"
  by (simp add: spec_phase_def)

lemma start_pass_unfold:
  assumes "uploaded_file inp = Some (Decodable img)" "clicked inp = Some StartTriageButton"
    "\<not> conversation_started s" "final_analysis s = None"
  shows "script_pass rt inp s =
     then_do
       (then_do (Done, upload_handler img s, [ShowImage img, ShowButton StartTriageButton])
          (start_triage_handler rt))
       (\<lambda>s1. then_do (conversation_block rt inp s1) analysis_panel)"
proof -
  have u: "\<not> conversation_started (upload_handler img s)"
    "final_analysis (upload_handler img s) = None"
    using assms(3,4) by (simp_all add: upload_handler_def)
  obtain oc s1 ev where h: "start_triage_handler rt (upload_handler img s) = (oc, s1, ev)"
    by (cases "start_triage_handler rt (upload_handler img s)") auto
  show ?thesis
  proof (cases "oc = Done")
    case True
    with h u assms(1,2) show ?thesis
      by (cases "conversation_block rt inp s1")
         (auto simp add: script_pass_def left_column_def Image_open_def triage_block_def then_do_def
           split: prod.splits outcome.splits)
  next
    case False
    with h u assms(1,2) show ?thesis
      by (simp add: script_pass_def left_column_def Image_open_def triage_block_def)
  qed
qed

lemma upload_handler_fields [simp]:
  "conversation_started (upload_handler img s) = conversation_started s"
  "triage_questions (upload_handler img s) = triage_questions s"
  "current_question_index (upload_handler img s) = current_question_index s"
  "conversation_history (upload_handler img s) = conversation_history s"
  "final_analysis (upload_handler img s) = final_analysis s"
  "session_image (upload_handler img s) \<noteq> None"
  by (simp_all add: upload_handler_def)

lemma triage_block_noclick:
  "clicked inp = None \<Longrightarrow> \<exists>ev. triage_block rt inp s = (Done, s, ev)"
  by (simp add: triage_block_def)

lemma option_buttons_noclick:
  "clicked inp = None \<Longrightarrow> \<exists>ev. option_buttons rt inp q_text opts s = (Done, s, ev)"
proof (induction opts)
  case Nil
  show ?case by simp
next
  case (Cons opt rest)
  then obtain ev where "option_buttons rt inp q_text rest s = (Done, s, ev)" by blast
  with Cons.prems show ?case by (simp add: Let_def)
qed

lemma ask_question_noclick:
  assumes "clicked inp = None" "ask_question rt inp s = (oc, s', ev)"
  shows "s' = s"
proof -
  have nb: "oc0 = Done" if "option_buttons rt inp q opts s = (oc0, s0, ev0)" for q opts oc0 s0 ev0
    using option_buttons_noclick [OF assms(1), of rt q opts s] that by auto
  have "oc \<noteq> Rerun"
    using assms(2)
    by (auto simp: ask_question_def split: sum.splits prod.splits dest: nb)
  with ask_question_result [OF assms(2)] show ?thesis by auto
qed

lemma conversation_block_noclick:
  assumes "clicked inp = None" "conversation_block rt inp s = (oc, s', ev)"
  shows "s' = s \<or>
         (analysis_pending s \<and> (\<exists>t. s' = s\<lparr>conversation_started := False, final_analysis := Some t\<rparr>))"
proof (cases "conversation_started s")
  case False
  with assms(2) show ?thesis by (simp add: conversation_block_def)
next
  case started: True
  show ?thesis
  proof (cases "py_len (triage_questions s)")
    case (Inl e)
    with started assms(2) show ?thesis by (simp add: conversation_block_def)
  next
    case (Inr n)
    show ?thesis
    proof (cases "current_question_index s < n")
      case True
      with started Inr assms(2) obtain ev2 where "ask_question rt inp s = (oc, s', ev2)"
        by (auto simp: conversation_block_def split: prod.splits)
      from ask_question_noclick [OF assms(1) this] show ?thesis by simp
    next
      case False
      with started Inr assms(2) obtain ev2 where a: "final_analysis_step rt s = (oc, s', ev2)"
        by (auto simp: conversation_block_def split: prod.splits)
      from started Inr False have "analysis_pending s" by (simp add: analysis_pending_def)
      with final_analysis_step_result [OF a] show ?thesis by blast
    qed
  qed
qed

lemma script_pass_upload_cases:
  assumes "script_pass rt inp s = (oc, s', ev)"
  shows "(\<forall>img. uploaded_file inp \<noteq> Some (Decodable img)) \<and> s' = s \<or>
         (\<exists>img oc1 ev1 oc2 ev2 s1.
            uploaded_file inp = Some (Decodable img) \<and>
            triage_block rt inp (upload_handler img s) = (oc1, s1, ev1) \<and>
            (oc1 \<noteq> Done \<and> s' = s1 \<or>
             oc1 = Done \<and> conversation_block rt inp s1 = (oc2, s', ev2)))"
proof (cases "uploaded_file inp")
  case None
  with assms have "left_column rt inp s = (Done, s, [])" by (simp add: left_column_def)
  with assms have "analysis_panel s = (oc, s', ev)"
    by (simp add: script_pass_def split: prod.splits)
  from analysis_panel_result [OF this] None show ?thesis by simp
next
  case (Some f)
  show ?thesis
  proof (cases f)
    case Corrupt
    with Some assms show ?thesis
      by (simp add: script_pass_def left_column_def Image_open_def)
  next
    case (Decodable img)
    obtain oc1 s1 ev1 where tb: "triage_block rt inp (upload_handler img s) = (oc1, s1, ev1)"
      by (cases "triage_block rt inp (upload_handler img s)") auto
    show ?thesis
    proof (cases "oc1 = Done")
      case False
      with tb Some Decodable assms have "s' = s1"
        by (simp add: script_pass_def left_column_def Image_open_def)
      with tb False Some Decodable show ?thesis by blast
    next
      case True
      obtain oc2 s2 ev2 where cb: "conversation_block rt inp s1 = (oc2, s2, ev2)"
        by (cases "conversation_block rt inp s1") auto
      have "s' = s2"
      proof (cases "oc2 = Done")
        case d: True
        with cb tb True Some Decodable assms obtain ev3 where
          "analysis_panel s2 = (oc, s', ev3)"
          by (auto simp: script_pass_def left_column_def Image_open_def split: prod.splits)
        from analysis_panel_result [OF this] show ?thesis by simp
      next
        case False
        with cb tb True Some Decodable assms show ?thesis
          by (simp add: script_pass_def left_column_def Image_open_def)
      qed
      with cb tb True Some Decodable show ?thesis by blast
    qed
  qed
qed

lemma analysis_pending_upload [simp]:
  "analysis_pending (upload_handler img s) = analysis_pending s"
  by (simp add: analysis_pending_def split: sum.splits)

lemma transition_image: "transition rt s s' c \<Longrightarrow> session_image s' = session_image s"
  by (erule transition.cases) auto

lemma script_pass_image:
  assumes "script_pass rt inp s = (oc, s', ev)"
  shows "session_image s' =
     (case uploaded_file inp of
        Some (Decodable img) \<Rightarrow> session_image (upload_handler img s)
      | _ \<Rightarrow> session_image s)"
proof -
  from script_pass_upload_cases [OF assms]
  consider (same) "\<forall>img. uploaded_file inp \<noteq> Some (Decodable img)" "s' = s"
    | (up) img oc1 ev1 oc2 ev2 s1 where
        "uploaded_file inp = Some (Decodable img)"
        "triage_block rt inp (upload_handler img s) = (oc1, s1, ev1)"
        "oc1 \<noteq> Done \<and> s' = s1 \<or> oc1 = Done \<and> conversation_block rt inp s1 = (oc2, s', ev2)"
    by blast
  then show ?thesis
  proof cases
    case same
    then show ?thesis by (auto split: option.splits upload.splits)
  next
    case up
    from transition_start_block [OF up(2)]
    have t1: "session_image s1 = session_image (upload_handler img s)"
      by (auto dest: transition_image)
    from up(3) have "session_image s' = session_image s1"
      by (auto dest!: conversation_block_result transition_image)
    with t1 up(1) show ?thesis by simp
  qed
qed

section \<open>A sample session, pass by pass\<close>

text \<open>
  Upload, start of the triage, the answer to the only question, and the pass that
  \<^verbatim>\<open>st.rerun()\<close> starts after the answer.
\<close>

lemma reachable_by_pass:
  "reachable s \<Longrightarrow> fst (snd (script_pass rt inp s)) = s' \<Longrightarrow> reachable s'"
  by (cases "script_pass rt inp s") (auto intro: reachable_pass)

lemma sample_pass_upload:
  "fst (snd (script_pass (sample_runtime (Inr sample_reply) (Inr ''**Analysis**''))
               sample_upload init_session)) = session_uploaded"
  by code_simp

lemma sample_pass_start:
  "fst (snd (script_pass (sample_runtime (Inr sample_reply) (Inr ''**Analysis**''))
               (sample_click StartTriageButton) session_uploaded)) = session_asking"
  by code_simp

lemma sample_pass_answer:
  "fst (snd (script_pass (sample_runtime (Inr sample_reply) (Inr ''**Analysis**''))
               (sample_click (OptionButton ''q0_1-3d'')) session_asking)) = session_answered"
  by code_simp

lemma sample_pass_analysis:
  "fst (snd (script_pass (sample_runtime (Inr sample_reply) (Inr ''**Analysis**''))
               sample_upload session_answered)) = session_complete"
  by code_simp

lemma reachable_uploaded: "reachable session_uploaded"
  using reachable_by_pass [OF reachable_init sample_pass_upload] .

lemma reachable_asking: "reachable session_asking"
  using reachable_by_pass [OF reachable_uploaded sample_pass_start] .

lemma reachable_answered: "reachable session_answered"
  using reachable_by_pass [OF reachable_asking sample_pass_answer] .

lemma reachable_complete: "reachable session_complete"
  using reachable_by_pass [OF reachable_answered sample_pass_analysis] .

lemma run_by_pass:
  "run s tr \<Longrightarrow> fst (snd (script_pass rt inp s)) = s' \<Longrightarrow> \<exists>tr'. run s' tr'"
  by (cases "script_pass rt inp s") (auto intro: run_pass)

lemma run_answered: "\<exists>tr. run session_answered tr"
proof -
  from run_by_pass [OF run_init sample_pass_upload] obtain t1 where "run session_uploaded t1" ..
  from run_by_pass [OF this sample_pass_start] obtain t2 where "run session_asking t2" ..
  from run_by_pass [OF this sample_pass_answer] show ?thesis .
qed

section \<open>The transcript and the question index\<close>

text \<open>
  Claim C2. In every session state the script can reach, the number of entries of
  \<^verbatim>\<open>conversation_history\<close> equals \<^verbatim>\<open>current_question_index\<close>. The states are taken at the
  end of every pass, so the state left by an answer button (lines 154-156) is among them.
\<close>

theorem history_length_is_index:
  "reachable s \<Longrightarrow> int (length (conversation_history s)) = current_question_index s"
  using reachable_inv [of s] by (simp add: session_inv_def)

theorem history_length_is_index_witness:
  "reachable session_answered \<and>
   int (length (conversation_history session_answered)) = current_question_index session_answered \<and>
   current_question_index session_answered = 1"
proof -
  have r: "reachable session_answered" by (rule reachable_answered)
  have "current_question_index session_answered = 1"
    by (simp add: session_answered_def)
  with r history_length_is_index [OF r] show ?thesis by simp
qed

section \<open>The index and the final analysis\<close>

lemma run_reachable: "run s tr \<Longrightarrow> reachable s"
  by (induction rule: run.induct) (auto intro: reachable_init reachable_pass)

lemma reachable_run: "reachable s \<Longrightarrow> \<exists>tr. run s tr"
  by (induction rule: reachable.induct) (auto intro: run_init run_pass)

lemma sample_pass_number_questions:
  "fst (snd (script_pass rt_number_questions (sample_click StartTriageButton) session_uploaded))
     = session_bad_questions"
  by code_simp

lemma reachable_bad_questions: "reachable session_bad_questions"
  using reachable_by_pass [OF reachable_uploaded sample_pass_number_questions] .

text \<open>
  Claim C6, as the script has it. In every session state the script can reach in which
  the stored \<^verbatim>\<open>triage_questions\<close> has a length, \<^verbatim>\<open>current_question_index\<close> lies between \<^verbatim>\<open>0\<close>
  and \<^verbatim>\<open>len(triage_questions)\<close>. The final analysis is generated exactly once: over a
  whole execution the narrative gateway is called at most once, and in a state in which
  the conversation is started and the index equals the length no call has been made yet
  and every pass that gets the uploaded image makes exactly one, after which the
  conversation is no longer started and the analysis is stored. (Where the stored value
  has no length the index is \<^verbatim>\<open>0\<close>.)
\<close>

theorem single_analysis_within_index_range:
  assumes "run s tr"
  shows "reachable s \<and>
         ((\<exists>n. py_len (triage_questions s) = Inr n) \<longrightarrow> index_in_range s) \<and>
         (\<forall>e. py_len (triage_questions s) = Inl e \<longrightarrow> current_question_index s = 0) \<and>
         length (narrative_calls tr) \<le> 1 \<and>
         (conversation_started s \<and> py_len (triage_questions s) = Inr (current_question_index s)
            \<longrightarrow> narrative_calls tr = [] \<and>
                (\<forall>rt inp img. uploaded_file inp = Some (Decodable img) \<longrightarrow>
                   (\<exists>s' ev. script_pass rt inp s = (Rerun, s', ev) \<and>
                      length (narrative_calls ev) = 1 \<and>
                      \<not> conversation_started s' \<and> final_analysis s' \<noteq> None)))"
proof -
  note inv = run_inv [OF assms]
  then have sinv: "session_inv s" by simp
  have re: "reachable s" using assms by (rule run_reachable)
  have rng: "index_in_range s" if "py_len (triage_questions s) = Inr n" for n
    using sinv that by (simp add: session_inv_def index_in_range_def)
  have zero: "current_question_index s = 0" if "py_len (triage_questions s) = Inl e" for e
    using sinv that by (simp add: session_inv_def)
  have pend: "narrative_calls tr = [] \<and>
        (\<forall>rt inp img. uploaded_file inp = Some (Decodable img) \<longrightarrow>
           (\<exists>s' ev. script_pass rt inp s = (Rerun, s', ev) \<and>
              length (narrative_calls ev) = 1 \<and>
              \<not> conversation_started s' \<and> final_analysis s' \<noteq> None))"
    if st: "conversation_started s"
      and len: "py_len (triage_questions s) = Inr (current_question_index s)"
  proof -
    from st sinv have "final_analysis s = None" by (auto simp: session_inv_def)
    with inv have none: "narrative_calls tr = []" by simp
    have "\<exists>s' ev. script_pass rt inp s = (Rerun, s', ev) \<and>
              length (narrative_calls ev) = 1 \<and>
              \<not> conversation_started s' \<and> final_analysis s' \<noteq> None"
      if up: "uploaded_file inp = Some (Decodable img)" for rt inp img
      using pending_pass [OF st len _ up, of rt]
      by (simp add: narrative_calls_pending_events)
    with none show ?thesis by blast
  qed
  from re rng zero inv pend show ?thesis by blast
qed

theorem single_analysis_within_index_range_witness:
  "\<exists>tr. run session_answered tr \<and>
     py_len (triage_questions session_answered) = Inr 1 \<and>
     index_in_range session_answered \<and>
     conversation_started session_answered \<and>
     py_len (triage_questions session_answered) = Inr (current_question_index session_answered) \<and>
     narrative_calls tr = [] \<and>
     length (narrative_calls (snd (snd (script_pass rt_sample sample_upload session_answered)))) = 1"
proof -
  from run_answered obtain tr where r: "run session_answered tr" ..
  have h0: "py_len (triage_questions session_answered) = Inr 1"
    and h1: "conversation_started session_answered"
    and h2: "py_len (triage_questions session_answered)
               = Inr (current_question_index session_answered)"
    and h4: "uploaded_file sample_upload = Some (Decodable (Image 1))"
    by (simp_all add: session_answered_def session_asking_def session_uploaded_def
        init_session_def sample_questions_def sample_upload_def)
  from single_analysis_within_index_range [OF r] h0 h1 h2 h4
  have "index_in_range session_answered" "narrative_calls tr = []"
    "\<exists>s' ev. script_pass rt_sample sample_upload session_answered = (Rerun, s', ev) \<and>
        length (narrative_calls ev) = 1"
    by blast+
  with r h0 h1 h2 show ?thesis by auto
qed

text \<open>
  Claim C6 as stated fails in a reachable state whose \<^verbatim>\<open>triage_questions\<close> has no length:
  after the reply \<^verbatim>\<open>{"questions": 5}\<close> the number \<^verbatim>\<open>5\<close> is stored, \<^verbatim>\<open>len\<close> of it raises
  \<^verbatim>\<open>TypeError\<close>, and there is no interval for the index to lie in.
\<close>

theorem number_questions_have_no_index_range:
  "reachable session_bad_questions \<and>
   triage_questions session_bad_questions = JInt 5 \<and>
   py_len (triage_questions session_bad_questions) = Inl TypeError \<and>
   \<not> index_in_range session_bad_questions"
proof -
  have "triage_questions session_bad_questions = JInt 5"
    by (simp add: session_bad_questions_def)
  then show ?thesis
    using reachable_bad_questions by (simp add: index_in_range_def)
qed

text \<open>
  Claim C3. When the index has reached the number of triage questions, the pass itself,
  whatever widget was or was not clicked, makes exactly one gateway call, the narrative
  one, with the prompt built from the whole transcript, stores what the gateway function
  returned as \<^verbatim>\<open>final_analysis\<close> and leaves the session in the phase Complete. When the
  remote call failed, the stored text is the error string of the gateway function.
\<close>

theorem exhausted_questions_give_final_analysis:
  assumes "conversation_started s" "py_len (triage_questions s) = Inr n"
    "n \<le> current_question_index s" "uploaded_file inp = Some (Decodable img)"
  shows "\<exists>s' ev. script_pass rt inp s = (Rerun, s', ev) \<and>
     filter is_model_call ev =
       [ModelCall Narrative (create_final_analysis_prompt rt (conversation_history s))
          (session_image s')] \<and>
     final_analysis s' =
       Some (case generate_content rt (create_final_analysis_prompt rt (conversation_history s))
                    (session_image s') of
               Inr t \<Rightarrow> t
             | Inl e \<Rightarrow> ''Error: API communication failed. '' @ e) \<and>
     spec_phase s' = Inr Complete \<and>
     \<not> conversation_started s' \<and>
     conversation_history s' = conversation_history s \<and>
     current_question_index s' = current_question_index s \<and>
     triage_questions s' = triage_questions s"
proof -
  from assms(3) have "\<not> current_question_index s < n" by simp
  note p = pending_pass [OF assms(1,2) this assms(4), of rt]
  show ?thesis
    unfolding p
    by (simp add: spec_phase_complete)
qed

theorem exhausted_questions_give_final_analysis_witness:
  "conversation_started session_answered \<and>
   py_len (triage_questions session_answered) = Inr 1 \<and>
   current_question_index session_answered = 1 \<and>
   fst (script_pass rt_narrative_down sample_upload session_answered) = Rerun \<and>
   final_analysis (fst (snd (script_pass rt_narrative_down sample_upload session_answered)))
     = Some ''Error: API communication failed. timeout'' \<and>
   spec_phase (fst (snd (script_pass rt_narrative_down sample_upload session_answered)))
     = Inr Complete \<and>
   length (filter is_model_call
     (snd (snd (script_pass rt_narrative_down sample_upload session_answered)))) = 1"
proof -
  have h1: "conversation_started session_answered"
    and h2: "py_len (triage_questions session_answered) = Inr 1"
    and h3: "1 \<le> current_question_index session_answered"
    and h3': "current_question_index session_answered = 1"
    and h4: "uploaded_file sample_upload = Some (Decodable (Image 1))"
    by (simp_all add: session_answered_def session_asking_def session_uploaded_def
        init_session_def sample_questions_def sample_upload_def)
  have g: "generate_content rt_narrative_down p i = Inl ''timeout''"
    if "p \<noteq> create_triage_prompt" for p i
    using that by (simp add: rt_narrative_down_def sample_runtime_def)
  have ne: "create_final_analysis_prompt rt_narrative_down (conversation_history session_answered)
              \<noteq> create_triage_prompt"
    by code_simp
  from exhausted_questions_give_final_analysis [OF h1 h2 h3 h4, of rt_narrative_down]
  obtain s' ev where
    "script_pass rt_narrative_down sample_upload session_answered = (Rerun, s', ev)"
    "filter is_model_call ev =
       [ModelCall Narrative (create_final_analysis_prompt rt_narrative_down
          (conversation_history session_answered)) (session_image s')]"
    "final_analysis s' =
       Some (case generate_content rt_narrative_down
                (create_final_analysis_prompt rt_narrative_down
                   (conversation_history session_answered)) (session_image s') of
               Inr t \<Rightarrow> t
             | Inl e \<Rightarrow> ''Error: API communication failed. '' @ e)"
    "spec_phase s' = Inr Complete"
    by blast
  with h1 h2 h3' g [OF ne] show ?thesis by simp
qed


section \<open>Starting the triage\<close>












text \<open>
  Claim C5, as the script has it. For every reply that parses as a JSON object the start
  button stores the value of \<^verbatim>\<open>"questions"\<close> (the empty list when the key is absent), empties
  the transcript, sets the index to \<^verbatim>\<open>0\<close>, marks the conversation as started and reruns.
  When the stored value has a length, as every list has, the session is then in
  AskingQuestion(0), or in AnalysisPending when the length is \<^verbatim>\<open>0\<close>. (When it has none,
  the session is in no phase.)
\<close>

theorem object_reply_starts_triage:
  assumes "uploaded_file inp = Some (Decodable img)" "clicked inp = Some StartTriageButton"
    "\<not> conversation_started s" "final_analysis s = None"
    "get_gemini_json_response rt create_triage_prompt (session_image (upload_handler img s))
       = Inr response_str"
    "json_loads rt response_str = Inr (JObj kvs)"
  shows "\<exists>s' ev. script_pass rt inp s = (Rerun, s', ev) \<and>
     triage_questions s' = (case map_of kvs ''questions'' of Some v \<Rightarrow> v | None \<Rightarrow> JArr []) \<and>
     conversation_history s' = [] \<and>
     current_question_index s' = 0 \<and>
     conversation_started s' \<and>
     final_analysis s' = None \<and>
     session_image s' = session_image (upload_handler img s) \<and>
     spec_phase s' =
       (case py_len (triage_questions s') of
          Inr n \<Rightarrow> Inr (if 0 < n then AskingQuestion 0 else AnalysisPending)
        | Inl e \<Rightarrow> Inl e) \<and>
     (\<forall>qs. triage_questions s' = JArr qs \<longrightarrow>
        spec_phase s' = Inr (if qs = [] then AnalysisPending else AskingQuestion 0))"
proof -
  let ?q = "case map_of kvs ''questions'' of Some v \<Rightarrow> v | None \<Rightarrow> JArr []"
  let ?s' = "(upload_handler img s)\<lparr>triage_questions := ?q, conversation_started := True,
               current_question_index := 0, conversation_history := []\<rparr>"
  have h: "start_triage_handler rt (upload_handler img s) =
        (Rerun, ?s',
         [ShowSpinner ''AI is assessing the image...'',
          ModelCall Structured create_triage_prompt (session_image (upload_handler img s))])"
    using assms(5,6) by (simp add: start_triage_handler_def parse_questions_def Let_def)
  have p: "spec_phase ?s' =
       (case py_len ?q of
          Inr n \<Rightarrow> Inr (if 0 < n then AskingQuestion 0 else AnalysisPending)
        | Inl e \<Rightarrow> Inl e)"
    using assms(4) by (simp add: spec_phase_def split: sum.splits)
  have l: "spec_phase ?s' = Inr (if qs = [] then AnalysisPending else AskingQuestion 0)"
    if "?q = JArr qs" for qs
    using that p by simp
  show ?thesis
    unfolding start_pass_unfold [OF assms(1-4)]
    using p l assms(4) by (simp add: h)
qed

theorem object_reply_starts_triage_witness:
  "json_loads rt_sample
     (projr (get_gemini_json_response rt_sample create_triage_prompt (Some (Image 1))))
     = Inr (JObj [(''questions'', sample_questions)]) \<and>
   fst (script_pass rt_sample (sample_click StartTriageButton) session_uploaded) = Rerun \<and>
   triage_questions
     (fst (snd (script_pass rt_sample (sample_click StartTriageButton) session_uploaded)))
     = sample_questions \<and>
   spec_phase
     (fst (snd (script_pass rt_sample (sample_click StartTriageButton) session_uploaded)))
     = Inr (AskingQuestion 0)"
proof -
  let ?r = "projr (get_gemini_json_response rt_sample create_triage_prompt (Some (Image 1)))"
  have h1: "uploaded_file (sample_click StartTriageButton) = Some (Decodable (Image 1))"
    and h2: "clicked (sample_click StartTriageButton) = Some StartTriageButton"
    and h3: "\<not> conversation_started session_uploaded"
    and h4: "final_analysis session_uploaded = None"
    by (simp_all add: sample_click_def session_uploaded_def init_session_def)
  have u: "upload_handler (Image 1) session_uploaded = session_uploaded"
    "session_image session_uploaded = Some (Image 1)"
    by (simp_all add: upload_handler_def session_uploaded_def)
  have h5: "get_gemini_json_response rt_sample create_triage_prompt
              (session_image (upload_handler (Image 1) session_uploaded)) = Inr ?r"
    unfolding u using json_response_total [of rt_sample create_triage_prompt "Some (Image 1)"]
    by auto
  have h6: "json_loads rt_sample ?r = Inr (JObj [(''questions'', sample_questions)])"
    by code_simp
  from object_reply_starts_triage [OF h1 h2 h3 h4 h5 h6] h6 show ?thesis
    by (auto simp: sample_questions_def)
qed

text \<open>
  Claim C5 as stated fails for a reply that is a JSON object whose \<^verbatim>\<open>"questions"\<close> is not
  a list: with \<^verbatim>\<open>{"questions": 5}\<close> the number is stored, the session is in neither
  AskingQuestion(0) nor AnalysisPending, and the pass that follows raises \<^verbatim>\<open>TypeError\<close> at
  \<^verbatim>\<open>len(st.session_state.triage_questions)\<close>.
\<close>

theorem object_reply_without_phase:
  "json_loads rt_number_questions
     (projr (get_gemini_json_response rt_number_questions create_triage_prompt (Some (Image 1))))
     = Inr (JObj [(''questions'', JInt 5)]) \<and>
   fst (snd (script_pass rt_number_questions (sample_click StartTriageButton) session_uploaded))
     = session_bad_questions \<and>
   spec_phase session_bad_questions \<noteq> Inr (AskingQuestion 0) \<and>
   spec_phase session_bad_questions \<noteq> Inr AnalysisPending \<and>
   spec_phase session_bad_questions = Inl TypeError \<and>
   fst (script_pass rt_number_questions sample_upload session_bad_questions) = Raised TypeError"
  by code_simp

text \<open>
  Claim C10. When the reply parses as JSON but not to an object, \<^verbatim>\<open>data.get\<close> raises
  \<^verbatim>\<open>AttributeError\<close>, which the handler does not catch: the pass ends with that exception
  and the error message is not shown. Nothing was assigned before the exception.
\<close>

theorem non_object_reply_raises:
  assumes "uploaded_file inp = Some (Decodable img)" "clicked inp = Some StartTriageButton"
    "\<not> conversation_started s" "final_analysis s = None"
    "get_gemini_json_response rt create_triage_prompt (session_image (upload_handler img s))
       = Inr response_str"
    "json_loads rt response_str = Inr data" "\<not> is_object data"
  shows "\<exists>ev. script_pass rt inp s = (Raised AttributeError, upload_handler img s, ev) \<and>
     ShowError triage_error_message \<notin> set ev \<and>
     filter is_model_call ev =
       [ModelCall Structured create_triage_prompt (session_image (upload_handler img s))]"
proof -
  from assms(7) have g: "py_get data ''questions'' (JArr []) = Inl AttributeError"
    by (cases data) simp_all
  have h: "start_triage_handler rt (upload_handler img s) =
        (Raised AttributeError, upload_handler img s,
         [ShowSpinner ''AI is assessing the image...'',
          ModelCall Structured create_triage_prompt (session_image (upload_handler img s))])"
    using assms(5,6) g by (simp add: start_triage_handler_def parse_questions_def Let_def)
  show ?thesis
    unfolding start_pass_unfold [OF assms(1-4)]
    by (simp add: h)
qed

theorem non_object_reply_raises_witness:
  "json_loads rt_list_reply ''[1, 2]'' = Inr (JArr [JInt 1, JInt 2]) \<and>
   \<not> is_object (JArr [JInt 1, JInt 2]) \<and>
   fst (script_pass rt_list_reply (sample_click StartTriageButton) session_uploaded)
     = Raised AttributeError \<and>
   fst (snd (script_pass rt_list_reply (sample_click StartTriageButton) session_uploaded))
     = session_uploaded"
proof -
  have h1: "uploaded_file (sample_click StartTriageButton) = Some (Decodable (Image 1))"
    and h2: "clicked (sample_click StartTriageButton) = Some StartTriageButton"
    and h3: "\<not> conversation_started session_uploaded"
    and h4: "final_analysis session_uploaded = None"
    by (simp_all add: sample_click_def session_uploaded_def init_session_def)
  have h5: "get_gemini_json_response rt_list_reply create_triage_prompt
              (session_image (upload_handler (Image 1) session_uploaded))
            = Inr ''[1, 2]''"
    by code_simp
  have h6: "json_loads rt_list_reply ''[1, 2]'' = Inr (JArr [JInt 1, JInt 2])"
    by code_simp
  have h7: "\<not> is_object (JArr [JInt 1, JInt 2])" by simp
  have u: "upload_handler (Image 1) session_uploaded = session_uploaded"
    by (simp add: upload_handler_def session_uploaded_def)
  from non_object_reply_raises [OF h1 h2 h3 h4 h5 h6 h7] u h6 h7 show ?thesis
    by auto
qed


section \<open>Passes without a user action\<close>

text \<open>
  Claim C8, as the script has it. A pass in which no button was clicked never changes
  \<^verbatim>\<open>conversation_history\<close>, \<^verbatim>\<open>current_question_index\<close> or \<^verbatim>\<open>triage_questions\<close>. It leaves
  \<^verbatim>\<open>final_analysis\<close> and \<^verbatim>\<open>conversation_started\<close> unchanged unless the analysis is pending
  (the conversation is started and the index is not below the number of questions); a
  change of \<^verbatim>\<open>final_analysis\<close> happens only in that case. This holds for every session
  state, reachable or not, and whatever the file uploader holds.
\<close>

theorem rerender_without_action:
  assumes "clicked inp = None" "script_pass rt inp s = (oc, s', ev)"
  shows "conversation_history s' = conversation_history s \<and>
         current_question_index s' = current_question_index s \<and>
         triage_questions s' = triage_questions s \<and>
         (\<not> analysis_pending s \<longrightarrow>
            final_analysis s' = final_analysis s \<and>
            conversation_started s' = conversation_started s) \<and>
         (final_analysis s' \<noteq> final_analysis s \<longrightarrow> analysis_pending s)"
proof -
  from script_pass_upload_cases [OF assms(2)]
  consider (same) "s' = s"
    | (up) img oc1 ev1 oc2 ev2 s1 where
        "triage_block rt inp (upload_handler img s) = (oc1, s1, ev1)"
        "oc1 \<noteq> Done \<and> s' = s1 \<or> oc1 = Done \<and> conversation_block rt inp s1 = (oc2, s', ev2)"
    by blast
  then show ?thesis
  proof cases
    case same
    then show ?thesis by simp
  next
    case up
    from triage_block_noclick [OF assms(1), of rt "upload_handler img s"] up(1)
    have d: "oc1 = Done" "s1 = upload_handler img s" by auto
    with up(2) have "conversation_block rt inp (upload_handler img s) = (oc2, s', ev2)" by simp
    from conversation_block_noclick [OF assms(1) this] show ?thesis
      by auto
  qed
qed

theorem rerender_without_action_witness:
  "clicked sample_upload = None \<and>
   \<not> analysis_pending session_asking \<and>
   conversation_history (fst (snd (script_pass rt_sample sample_upload session_asking))) = [] \<and>
   current_question_index (fst (snd (script_pass rt_sample sample_upload session_asking))) = 0 \<and>
   final_analysis (fst (snd (script_pass rt_sample sample_upload session_asking))) = None"
proof -
  have h1: "clicked sample_upload = None" by (simp add: sample_upload_def)
  have h2: "\<not> analysis_pending session_asking"
    by (simp add: analysis_pending_def session_asking_def session_uploaded_def
        init_session_def sample_questions_def)
  have f: "conversation_history session_asking = []" "current_question_index session_asking = 0"
    "final_analysis session_asking = None"
    by (simp_all add: session_asking_def session_uploaded_def init_session_def)
  obtain oc s' ev where p: "script_pass rt_sample sample_upload session_asking = (oc, s', ev)"
    by (cases "script_pass rt_sample sample_upload session_asking") auto
  from rerender_without_action [OF h1 p] h1 h2 f p show ?thesis by simp
qed

text \<open>
  Claim C8 as stated fails in the state an answer to the last question leaves: the pass
  that \<^verbatim>\<open>st.rerun()\<close> starts there, with no button clicked and the same uploaded file,
  stores the final analysis.
\<close>

theorem rerender_changes_pending_session:
  "reachable session_answered \<and>
   clicked sample_upload = None \<and>
   uploaded_file sample_upload = Some (Decodable (Image 1)) \<and>
   session_image session_answered = Some (Image 1) \<and>
   final_analysis session_answered = None \<and>
   final_analysis (fst (snd (script_pass rt_sample sample_upload session_answered)))
     = Some ''**Analysis**''"
proof -
  have "final_analysis (fst (snd (script_pass rt_sample sample_upload session_answered)))
     = Some ''**Analysis**''"
    by code_simp
  moreover have "clicked sample_upload = None"
    "uploaded_file sample_upload = Some (Decodable (Image 1))"
    "session_image session_answered = Some (Image 1)"
    "final_analysis session_answered = None"
    by (simp_all add: session_answered_def session_asking_def session_uploaded_def
        init_session_def sample_upload_def)
  ultimately show ?thesis using reachable_answered by simp
qed


section \<open>The stored image\<close>

text \<open>
  Claim C9. The upload step stores the image only when none is stored: with no stored
  image it stores the uploaded one, with a stored image it changes nothing, and it never
  touches another field. Over a whole pass: a stored image is still the stored image
  after the pass, and with none stored the uploaded image is the stored one afterwards.
\<close>

theorem first_upload_wins:
  "(session_image s = None \<longrightarrow> session_image (upload_handler img s) = Some img) \<and>
   (session_image s \<noteq> None \<longrightarrow> upload_handler img s = s) \<and>
   conversation_started (upload_handler img s) = conversation_started s \<and>
   triage_questions (upload_handler img s) = triage_questions s \<and>
   current_question_index (upload_handler img s) = current_question_index s \<and>
   conversation_history (upload_handler img s) = conversation_history s \<and>
   final_analysis (upload_handler img s) = final_analysis s \<and>
   (\<forall>rt inp oc s' ev.
      script_pass rt inp s = (oc, s', ev) \<longrightarrow>
        (\<forall>i0. session_image s = Some i0 \<longrightarrow> session_image s' = Some i0) \<and>
        (session_image s = None \<and> uploaded_file inp = Some (Decodable img) \<longrightarrow>
           session_image s' = Some img))"
proof -
  have "(\<forall>i0. session_image s = Some i0 \<longrightarrow> session_image s' = Some i0) \<and>
        (session_image s = None \<and> uploaded_file inp = Some (Decodable img) \<longrightarrow>
           session_image s' = Some img)"
    if "script_pass rt inp s = (oc, s', ev)" for rt inp oc s' ev
    using script_pass_image [OF that]
    by (auto simp: upload_handler_def split: option.splits upload.splits)
  then show ?thesis
    by (simp add: upload_handler_def)
qed

theorem first_upload_wins_witness:
  "session_image session_uploaded = Some (Image 1) \<and>
   upload_handler (Image 2) session_uploaded = session_uploaded \<and>
   session_image (upload_handler (Image 2) init_session) = Some (Image 2) \<and>
   session_image (fst (snd (script_pass rt_sample second_upload session_uploaded)))
     = Some (Image 1)"
proof -
  have h: "session_image session_uploaded = Some (Image 1)"
    "session_image init_session = None"
    by (simp_all add: session_uploaded_def init_session_def)
  obtain oc s' ev where p: "script_pass rt_sample second_upload session_uploaded = (oc, s', ev)"
    by (cases "script_pass rt_sample second_upload session_uploaded") auto
  note w = first_upload_wins [of session_uploaded "Image 2"]
  from w h have "upload_handler (Image 2) session_uploaded = session_uploaded" by simp
  moreover from w h p have "session_image s' = Some (Image 1)" by blast
  moreover from first_upload_wins [of init_session "Image 2"] h
  have "session_image (upload_handler (Image 2) init_session) = Some (Image 2)" by simp
  ultimately show ?thesis using h p by simp
qed

section \<open>The gateway functions\<close>

lemma strip_sublist: "sublist (strip s) s"
proof -
  let ?d = "dropWhile py_isspace s"
  have "sublist (dropWhile py_isspace (rev ?d)) (rev ?d)" by simp
  then have "sublist (strip s) ?d" by (simp add: strip_def sublist_rev_left)
  moreover have "sublist ?d s" by simp
  ultimately show ?thesis by (rule sublist_order.order.trans)
qed

lemma replace_ne_subseq: "subseq (replace_ne old [] s) s"
proof (induction old "[] :: string" s rule: replace_ne.induct)
  case (1 old)
  show ?case by simp
next
  case (2 old c cs)
  show ?case
  proof (cases "old \<noteq> [] \<and> prefix old (c # cs)")
    case True
    with 2 have "subseq (replace_ne old [] (drop (length old) (c # cs))) (drop (length old) (c # cs))"
      by simp
    moreover have "subseq (drop (length old) (c # cs)) (c # cs)"
      by (rule sublist_imp_subseq) simp
    ultimately have "subseq (replace_ne old [] (drop (length old) (c # cs))) (c # cs)"
      by (rule subseq_order.trans)
    with True show ?thesis by simp
  next
    case False
    with 2 show ?thesis by auto
  qed
qed

lemma replace_empty_subseq: "old \<noteq> [] \<Longrightarrow> subseq (replace s old []) s"
  by (simp add: replace_def replace_ne_subseq)

lemma remove_fence_at_fence:
  "prefix ''```'' s \<Longrightarrow> replace_ne ''```'' [] s = replace_ne ''```'' [] (drop 3 s)"
  by (cases s) (simp_all add: numeral_3_eq_3)

lemma fence_prefix_Cons:
  "prefix ''```'' (c # cs) \<longleftrightarrow> c = CHR 0x60 \<and> prefix ''``'' cs"
  by auto

lemma remove_fence_elsewhere:
  assumes "\<not> prefix ''```'' (c # cs)"
  shows "replace_ne ''```'' [] (c # cs) = c # replace_ne ''```'' [] cs"
proof -
  have "replace_ne ''```'' [] (c # cs) =
        (if ''```'' \<noteq> [] \<and> prefix ''```'' (c # cs)
         then [] @ replace_ne ''```'' [] (drop (length ''```'') (c # cs))
         else c # replace_ne ''```'' [] cs)"
    by (rule replace_ne.simps(2))
  with assms show ?thesis by (simp only: if_False simp_thms)
qed

lemma remove_fence_leading:
  "(prefix ''`'' (replace_ne ''```'' [] s) \<longrightarrow> prefix ''`'' s) \<and>
   (prefix ''``'' (replace_ne ''```'' [] s) \<longrightarrow> prefix ''``'' s)"
proof (induction s)
  case Nil
  show ?case by simp
next
  case (Cons c cs)
  show ?case
  proof (cases "prefix ''```'' (c # cs)")
    case True
    then have "c = CHR 0x60" "prefix ''``'' cs" by (simp_all only: fence_prefix_Cons)
    then show ?thesis by (cases cs) auto
  next
    case False
    from Cons show ?thesis
      unfolding remove_fence_elsewhere [OF False] by auto
  qed
qed

lemma remove_fence_none: "\<not> sublist ''```'' (replace_ne ''```'' [] s)"
proof (induction "length s" arbitrary: s rule: less_induct)
  case less
  show ?case
  proof (cases s)
    case Nil
    then show ?thesis by simp
  next
    case (Cons c cs)
    show ?thesis
    proof (cases "prefix ''```'' s")
      case True
      from Cons have "length (drop 3 s) < length s" by simp
      from less [OF this] show ?thesis
        unfolding remove_fence_at_fence [OF True] .
    next
      case False
      with Cons have nf: "\<not> prefix ''```'' (c # cs)" by simp
      from Cons have "length cs < length s" by simp
      from less [OF this] have ih: "\<not> sublist ''```'' (replace_ne ''```'' [] cs)" .
      have "\<not> prefix ''```'' (c # replace_ne ''```'' [] cs)"
      proof
        assume "prefix ''```'' (c # replace_ne ''```'' [] cs)"
        then have "c = CHR 0x60" "prefix ''``'' (replace_ne ''```'' [] cs)"
          by (simp_all only: fence_prefix_Cons)
        with remove_fence_leading [of cs] have "c = CHR 0x60 \<and> prefix ''``'' cs" by blast
        then have "prefix ''```'' (c # cs)" by (simp only: fence_prefix_Cons)
        with nf show False by contradiction
      qed
      with ih have "\<not> sublist ''```'' (c # replace_ne ''```'' [] cs)"
        by (simp only: sublist_Cons_right) simp
      then show ?thesis
        unfolding Cons remove_fence_elsewhere [OF nf] .
    qed
  qed
qed

lemma cleaned_response_subseq: "subseq (cleaned_response t) t"
proof -
  have "subseq (cleaned_response t) (replace (strip t) ''```json'' '''')"
    unfolding cleaned_response_def by (rule replace_empty_subseq) simp
  also have "subseq \<dots> (strip t)" by (rule replace_empty_subseq) simp
  also have "subseq \<dots> t" by (rule sublist_imp_subseq) (rule strip_sublist)
  finally show ?thesis .
qed

lemma cleaned_response_no_fence: "\<not> sublist ''```'' (cleaned_response t)"
  by (simp add: cleaned_response_def replace_def remove_fence_none)

lemma sublist_fence_json: "sublist ''```json'' s \<Longrightarrow> sublist ''```'' s"
proof -
  assume "sublist ''```json'' s"
  moreover have "sublist ''```'' ''```json''"
    by (rule prefix_imp_sublist) simp
  ultimately show ?thesis using sublist_order.order.trans by blast
qed

text \<open>
  Claim C4. Neither gateway function lets an exception escape. When the remote call
  succeeds, \<^verbatim>\<open>get_gemini_json_response\<close> returns the reply stripped of surrounding white
  space and of the two fence markers: the result is a subsequence of the reply and
  contains no run of three backquotes, hence neither marker; \<^verbatim>\<open>get_gemini_text_response\<close>
  returns the reply unchanged. When the remote call fails with message \<open>e\<close>, the first
  returns the JSON-shaped string with the key \<^verbatim>\<open>error\<close> and the second the string that
  starts with \<^verbatim>\<open>Error:\<close>.
\<close>

theorem gateway_functions_never_raise:
  "(\<exists>r. get_gemini_json_response rt p i = Inr r) \<and>
   (\<exists>r. get_gemini_text_response rt p i = Inr r) \<and>
   (\<forall>t. generate_content rt p i = Inr t \<longrightarrow>
      get_gemini_json_response rt p i = Inr (cleaned_response t) \<and>
      \<not> sublist ''```'' (cleaned_response t) \<and>
      \<not> sublist ''```json'' (cleaned_response t) \<and>
      subseq (cleaned_response t) t \<and>
      get_gemini_text_response rt p i = Inr t) \<and>
   (\<forall>e. generate_content rt p i = Inl e \<longrightarrow>
      get_gemini_json_response rt p i
        = Inr (''{\"error\": \"API communication failed: '' @ e @ ''\"}'') \<and>
      get_gemini_text_response rt p i = Inr (''Error: API communication failed. '' @ e))"
proof -
  have a: "\<exists>r. get_gemini_json_response rt p i = Inr r" by (rule json_response_total)
  have b: "\<exists>r. get_gemini_text_response rt p i = Inr r" by (simp add: text_response_total)
  have c: "get_gemini_json_response rt p i = Inr (cleaned_response t) \<and>
      \<not> sublist ''```'' (cleaned_response t) \<and>
      \<not> sublist ''```json'' (cleaned_response t) \<and>
      subseq (cleaned_response t) t \<and>
      get_gemini_text_response rt p i = Inr t"
    if "generate_content rt p i = Inr t" for t
    using that cleaned_response_no_fence [of t] cleaned_response_subseq [of t]
      sublist_fence_json [of "cleaned_response t"]
    by (auto simp: get_gemini_json_response_def get_gemini_text_response_def cleaned_response_def)
  have d: "get_gemini_json_response rt p i
        = Inr (''{\"error\": \"API communication failed: '' @ e @ ''\"}'') \<and>
      get_gemini_text_response rt p i = Inr (''Error: API communication failed. '' @ e)"
    if "generate_content rt p i = Inl e" for e
    using that by (simp add: get_gemini_json_response_def get_gemini_text_response_def)
  from a b c d show ?thesis by blast
qed

theorem gateway_functions_never_raise_witness:
  "generate_content rt_sample create_triage_prompt None = Inr sample_reply \<and>
   get_gemini_json_response rt_sample create_triage_prompt None
     = Inr ''\<newline>{\"questions\": [{\"question_text\": \"Duration?\", \"options\": [\"<1d\", \"1-3d\", \">3d\"]}]}\<newline>'' \<and>
   get_gemini_text_response rt_sample create_triage_prompt None = Inr sample_reply \<and>
   generate_content rt_narrative_down '''' None = Inl ''timeout'' \<and>
   get_gemini_json_response rt_narrative_down '''' None
     = Inr ''{\"error\": \"API communication failed: timeout\"}'' \<and>
   get_gemini_text_response rt_narrative_down '''' None
     = Inr ''Error: API communication failed. timeout''"
proof -
  have g1: "generate_content rt_sample create_triage_prompt None = Inr sample_reply"
    by (simp add: rt_sample_def sample_runtime_def)
  have g2: "generate_content rt_narrative_down '''' None = Inl ''timeout''"
    by code_simp
  have c: "cleaned_response sample_reply
     = ''\<newline>{\"questions\": [{\"question_text\": \"Duration?\", \"options\": [\"<1d\", \"1-3d\", \">3d\"]}]}\<newline>''"
    by code_simp
  from gateway_functions_never_raise [of rt_sample create_triage_prompt None] g1 c
  have "get_gemini_json_response rt_sample create_triage_prompt None
     = Inr ''\<newline>{\"questions\": [{\"question_text\": \"Duration?\", \"options\": [\"<1d\", \"1-3d\", \">3d\"]}]}\<newline>''"
    "get_gemini_text_response rt_sample create_triage_prompt None = Inr sample_reply"
    by auto
  moreover from gateway_functions_never_raise [of rt_narrative_down "''''" None] g2
  have "get_gemini_json_response rt_narrative_down '''' None
     = Inr ''{\"error\": \"API communication failed: timeout\"}''"
    "get_gemini_text_response rt_narrative_down '''' None
     = Inr ''Error: API communication failed. timeout''"
    by auto
  ultimately show ?thesis using g1 g2 by simp
qed


section \<open>The transcript inside the analysis prompt\<close>

lemma split_lines_nonempty [simp]: "split_lines s \<noteq> []"
  by (induction s) (auto split: list.splits)

lemma split_lines_single: "\<not> has_newline s \<Longrightarrow> split_lines s = [s]"
  by (induction s) (auto simp: has_newline_def)

lemma split_lines_append:
  "split_lines (a @ b) =
     butlast (split_lines a) @ [last (split_lines a) @ hd (split_lines b)] @ tl (split_lines b)"
proof (induction a)
  case Nil
  show ?case by simp
next
  case (Cons c a)
  obtain l ls where sa: "split_lines a = l # ls"
    by (cases "split_lines a") auto
  show ?case
  proof (cases "c = CHR 0x0A")
    case True
    with Cons show ?thesis by simp
  next
    case False
    with Cons sa show ?thesis by (cases ls) auto
  qed
qed

lemma split_lines_newline:
  "split_lines (a @ CHR 0x0A # b) = split_lines a @ split_lines b"
proof -
  have "split_lines (CHR 0x0A # b) = [] # split_lines b" by simp
  then show ?thesis
    using split_lines_append [of a "CHR 0x0A # b"] by simp
qed

lemma split_lines_two:
  assumes "\<not> has_newline x" "\<not> has_newline y"
  shows "split_lines (x @ CHR 0x0A # y) = [x, y]"
  by (simp only: split_lines_newline split_lines_single [OF assms(1)]
      split_lines_single [OF assms(2)] append.simps)

lemma qa_text_lines:
  assumes "\<not> has_newline (py_str rt q)" "\<not> has_newline (py_str rt a)"
  shows "split_lines (qa_text rt (q, a)) = block_lines (py_str rt q, py_str rt a)"
proof -
  have 1: "\<not> has_newline (''Q: '' @ py_str rt q)" "\<not> has_newline (''A: '' @ py_str rt a)"
    using assms by (simp_all add: has_newline_def)
  have "qa_text rt (q, a) = (''Q: '' @ py_str rt q) @ CHR 0x0A # (''A: '' @ py_str rt a)"
    by (simp add: qa_text_def)
  then have "split_lines (qa_text rt (q, a)) = [''Q: '' @ py_str rt q, ''A: '' @ py_str rt a]"
    by (simp only: split_lines_two [OF 1])
  then show ?thesis by (simp only: block_lines_def fst_conv snd_conv)
qed

lemma split_lines_history:
  assumes "single_line rt h" "h \<noteq> []"
  shows "split_lines (history_str rt h) = concat (map block_lines (transcript rt h))"
  using assms(2,1)
proof (induction h rule: list_nonempty_induct)
  case (single x)
  obtain q a where x: "x = (q, a)" by (cases x)
  from single have "\<not> has_newline (py_str rt q)" "\<not> has_newline (py_str rt a)"
    by (simp_all add: single_line_def x)
  from qa_text_lines [OF this] show ?case
    by (simp add: history_str_def transcript_def x)
next
  case (cons x xs)
  obtain q a where x: "x = (q, a)" by (cases x)
  obtain y ys where xs: "xs = y # ys" using cons.hyps by (cases xs) auto
  from cons.prems have sl: "single_line rt xs"
    and nq: "\<not> has_newline (py_str rt q)" and na: "\<not> has_newline (py_str rt a)"
    by (simp_all add: single_line_def x)
  have "history_str rt (x # xs) = qa_text rt (q, a) @ CHR 0x0A # history_str rt xs"
    by (simp add: history_str_def x xs)
  then have "split_lines (history_str rt (x # xs)) =
          split_lines (qa_text rt (q, a)) @ split_lines (history_str rt xs)"
    by (simp only: split_lines_newline)
  with cons.IH [OF sl] qa_text_lines [OF nq na] show ?case
    by (simp add: transcript_def x)
qed

lemma qa_pairs_skip:
  "list_all (\<lambda>l. \<not> is_q_line l) xs \<Longrightarrow> qa_pairs (xs @ ys) = qa_pairs ys"
proof (induction xs)
  case Nil
  show ?case by simp
next
  case (Cons x xs)
  then have "qa_pairs (x # (xs @ ys)) = qa_pairs (xs @ ys)"
    by (cases "xs @ ys") auto
  with Cons show ?case by simp
qed

lemma qa_pairs_none: "list_all (\<lambda>l. \<not> is_q_line l) xs \<Longrightarrow> qa_pairs xs = []"
  using qa_pairs_skip [of xs "[]"] by simp

lemma qa_pairs_pair:
  "is_q_line l1 \<Longrightarrow> is_a_line l2 \<Longrightarrow>
   qa_pairs (l1 # l2 # rest) = (drop 3 (lstrip l1), drop 3 (lstrip l2)) # qa_pairs rest"
  by simp

lemma q_line: "is_q_line (''Q: '' @ q)" "drop 3 (lstrip (''Q: '' @ q)) = q"
  by (simp_all add: is_q_line_def lstrip_def py_isspace_def)

lemma q_line_indented:
  "is_q_line (''    '' @ ''Q: '' @ q)" "drop 3 (lstrip (''    '' @ ''Q: '' @ q)) = q"
  by (simp_all add: is_q_line_def lstrip_def py_isspace_def)

lemma a_line: "is_a_line (''A: '' @ a)" "drop 3 (lstrip (''A: '' @ a)) = a"
  by (simp_all add: is_a_line_def lstrip_def py_isspace_def)

lemma qa_pairs_block: "qa_pairs (block_lines (q, a) @ rest) = (q, a) # qa_pairs rest"
proof -
  have "block_lines (q, a) @ rest = (''Q: '' @ q) # (''A: '' @ a) # rest"
    by (simp only: block_lines_def fst_conv snd_conv append.simps)
  then show ?thesis
    by (simp only: qa_pairs_pair [OF q_line(1) a_line(1)] q_line(2) a_line(2))
qed

lemma qa_pairs_blocks:
  "qa_pairs (concat (map block_lines t) @ rest) = t @ qa_pairs rest"
proof (induction t)
  case Nil
  show ?case by simp
next
  case (Cons x t)
  obtain q a where x: "x = (q, a)" by (cases x)
  have "concat (map block_lines (x # t)) @ rest
          = block_lines (q, a) @ (concat (map block_lines t) @ rest)"
    by (simp add: x)
  then show ?case by (simp only: qa_pairs_block Cons.IH x append.simps)
qed

lemma qa_pairs_first_block:
  "qa_pairs ((''    '' @ ''Q: '' @ q) # (''A: '' @ a) # rest) = (q, a) # qa_pairs rest"
  by (simp only: qa_pairs_pair [OF q_line_indented(1) a_line(1)] q_line_indented(2) a_line(2))

lemma head_lines_plain:
  "list_all (\<lambda>l. \<not> is_q_line l) (butlast (split_lines analysis_prompt_head))"
  by code_simp

lemma head_last_line: "last (split_lines analysis_prompt_head) = ''    ''"
  by code_simp

lemma tail_first_line: "hd (split_lines analysis_prompt_tail) = []"
  by code_simp

lemma tail_lines_plain:
  "list_all (\<lambda>l. \<not> is_q_line l) (tl (split_lines analysis_prompt_tail))"
  by code_simp

lemma indent_not_q: "\<not> is_q_line ''    ''"
  by code_simp

lemma prompt_lines:
  "split_lines (create_final_analysis_prompt rt h) =
     butlast (split_lines analysis_prompt_head)
     @ ((''    '' @ hd (split_lines (history_str rt h)))
        # (tl (split_lines (history_str rt h)) @ tl (split_lines analysis_prompt_tail)))"
proof -
  let ?hs = "split_lines (history_str rt h)"
  let ?tl = "tl (split_lines analysis_prompt_tail)"
  have "split_lines (history_str rt h @ analysis_prompt_tail) =
          butlast ?hs @ [last ?hs @ []] @ ?tl"
    by (simp only: split_lines_append [of "history_str rt h"] tail_first_line)
  also have "\<dots> = (butlast ?hs @ [last ?hs]) @ ?tl" by simp
  also have "\<dots> = ?hs @ ?tl" by (simp only: append_butlast_last_id [OF split_lines_nonempty])
  finally have a: "split_lines (history_str rt h @ analysis_prompt_tail) = ?hs @ ?tl" .
  have b: "hd (?hs @ ?tl) = hd ?hs" "tl (?hs @ ?tl) = tl ?hs @ ?tl"
    by simp_all
  have "split_lines (analysis_prompt_head @ (history_str rt h @ analysis_prompt_tail)) =
          butlast (split_lines analysis_prompt_head)
          @ [''    '' @ hd ?hs] @ (tl ?hs @ ?tl)"
    by (simp only: split_lines_append [of analysis_prompt_head] head_last_line a b)
  then show ?thesis
    by (simp only: create_final_analysis_prompt_def append.simps)
qed

lemma pairs_of_prompt_lines:
  "qa_pairs (split_lines (create_final_analysis_prompt rt h)) =
     qa_pairs ((''    '' @ hd (split_lines (history_str rt h)))
               # (tl (split_lines (history_str rt h)) @ tl (split_lines analysis_prompt_tail)))"
  by (simp only: prompt_lines qa_pairs_skip [OF head_lines_plain])

text \<open>
  Claim C7, as the script has it. \<open>create_final_analysis_prompt\<close> is a function of the
  transcript (and of Python's \<^verbatim>\<open>str\<close>). When no question and no answer text contains a line
  break, the \<^verbatim>\<open>Q:\<close>/\<^verbatim>\<open>A:\<close> line pairs of the prompt are exactly the entries of the
  transcript, in their order and with their texts; so a transcript of \<open>N\<close> entries gives
  exactly \<open>N\<close> pairs. The prompt of the single narrative call is this prompt for the
  whole transcript (claim C3).
\<close>

theorem prompt_transcript_roundtrip:
  assumes "single_line rt h"
  shows "qa_pairs (split_lines (create_final_analysis_prompt rt h)) = transcript rt h \<and>
         length (qa_pairs (split_lines (create_final_analysis_prompt rt h))) = length h"
proof -
  let ?tl = "tl (split_lines analysis_prompt_tail)"
  have "qa_pairs (split_lines (create_final_analysis_prompt rt h)) = transcript rt h"
  proof (cases h)
    case Nil
    then have "split_lines (history_str rt h) = [[]]" by (simp add: history_str_def)
    then have "split_lines (create_final_analysis_prompt rt h) =
        butlast (split_lines analysis_prompt_head) @ (''    '' # ?tl)"
      by (simp only: prompt_lines list.sel append.simps append_Nil2)
    moreover have "list_all (\<lambda>l. \<not> is_q_line l) (''    '' # ?tl)"
      using tail_lines_plain indent_not_q by simp
    ultimately have "qa_pairs (split_lines (create_final_analysis_prompt rt h)) = []"
      by (simp only: qa_pairs_skip [OF head_lines_plain] qa_pairs_none)
    with Nil show ?thesis by (simp add: transcript_def)
  next
    case (Cons x xs)
    obtain q a where x: "x = (q, a)" by (cases x)
    have ne: "h \<noteq> []" using Cons by simp
    have t: "transcript rt h = (py_str rt q, py_str rt a) # transcript rt xs"
      by (simp add: transcript_def Cons x)
    have "split_lines (history_str rt h) =
        block_lines (py_str rt q, py_str rt a) @ concat (map block_lines (transcript rt xs))"
      using split_lines_history [OF assms ne] by (simp add: t)
    then have hs: "split_lines (history_str rt h) =
        (''Q: '' @ py_str rt q)
        # (''A: '' @ py_str rt a) # concat (map block_lines (transcript rt xs))"
      by (simp only: block_lines_def fst_conv snd_conv append.simps)
    have "split_lines (create_final_analysis_prompt rt h) =
        butlast (split_lines analysis_prompt_head)
        @ ((''    '' @ ''Q: '' @ py_str rt q) # (''A: '' @ py_str rt a)
            # (concat (map block_lines (transcript rt xs)) @ ?tl))"
      by (simp only: prompt_lines hs list.sel append.simps)
    then have "qa_pairs (split_lines (create_final_analysis_prompt rt h)) =
        qa_pairs ((''    '' @ ''Q: '' @ py_str rt q) # (''A: '' @ py_str rt a)
            # (concat (map block_lines (transcript rt xs)) @ ?tl))"
      by (simp only: qa_pairs_skip [OF head_lines_plain])
    also have "\<dots> = (py_str rt q, py_str rt a)
        # qa_pairs (concat (map block_lines (transcript rt xs)) @ ?tl)"
      by (rule qa_pairs_first_block)
    also have "\<dots> = (py_str rt q, py_str rt a) # transcript rt xs"
      by (simp only: qa_pairs_blocks qa_pairs_none [OF tail_lines_plain] append_Nil2)
    finally show ?thesis using t by simp
  qed
  then show ?thesis by (simp add: transcript_def)
qed

theorem prompt_transcript_roundtrip_witness:
  "single_line rt_sample (conversation_history session_answered) \<and>
   qa_pairs (split_lines
     (create_final_analysis_prompt rt_sample (conversation_history session_answered)))
     = [(''Duration?'', ''1-3d'')]"
proof -
  have s: "single_line rt_sample (conversation_history session_answered)"
    by code_simp
  have "transcript rt_sample (conversation_history session_answered) = [(''Duration?'', ''1-3d'')]"
    by code_simp
  with prompt_transcript_roundtrip [OF s] s show ?thesis by simp
qed


text \<open>
  Claim C7 as stated fails for a text with line breaks: a transcript of one entry whose
  question text contains a line that starts with \<^verbatim>\<open>A: \<close> and a line that starts with
  \<^verbatim>\<open>Q: \<close> gives a prompt with two line pairs.
\<close>

theorem line_breaks_add_line_pairs:
  "length history_with_line_breaks = 1 \<and>
   qa_pairs (split_lines (create_final_analysis_prompt rt_sample history_with_line_breaks))
     = [(''x'', ''y''), (''w'', ''z'')] \<and>
   length (qa_pairs (split_lines
     (create_final_analysis_prompt rt_sample history_with_line_breaks))) = 2"
proof -
  let ?tl = "tl (split_lines analysis_prompt_tail)"
  have hs: "split_lines (history_str rt_sample history_with_line_breaks)
              = [''Q: '' @ ''x'', ''A: '' @ ''y'', ''Q: '' @ ''w'', ''A: '' @ ''z'']"
    by code_simp
  have "qa_pairs (split_lines (create_final_analysis_prompt rt_sample history_with_line_breaks))
      = qa_pairs ((''    '' @ ''Q: '' @ ''x'') # (''A: '' @ ''y'')
                  # (block_lines (''w'', ''z'') @ ?tl))"
    by (simp only: pairs_of_prompt_lines hs list.sel append.simps block_lines_def fst_conv snd_conv)
  also have "\<dots> = (''x'', ''y'') # qa_pairs (block_lines (''w'', ''z'') @ ?tl)"
    by (rule qa_pairs_first_block)
  also have "\<dots> = [(''x'', ''y''), (''w'', ''z'')]"
    by (simp only: qa_pairs_block qa_pairs_none [OF tail_lines_plain])
  finally have e:
    "qa_pairs (split_lines (create_final_analysis_prompt rt_sample history_with_line_breaks))
       = [(''x'', ''y''), (''w'', ''z'')]" .
  have l: "length history_with_line_breaks = 1"
    by (simp add: history_with_line_breaks_def)
  from e l show ?thesis by simp
qed

end
